theory Spec2Isabelle
  imports Main "HOL-Library.Product_Lexorder" "HOL-Library.Option_ord"
begin

section \<open>Data model\<close>

text \<open>
  The collection of loci of \<^verbatim>\<open>SVLocusSet.cpp\<close>. Positions and chromosome ids are
  \<^verbatim>\<open>int32_t\<close> in the source and are only compared, never added, so they are
  integers here. Locus and node indices are \<^verbatim>\<open>unsigned\<close> and are natural numbers.
\<close>

record known_pos_range =
  begin_pos :: int
  end_pos :: int

record GenomeInterval =
  tid :: int
  range' :: known_pos_range

text \<open>
  A node: its interval, its observation count and its edges, a mapping from the slot
  of a sibling node to the observation count of the edge (an association list, as
  \<^verbatim>\<open>dumpStats\<close> iterates it).
\<close>

record SVLocusNode =
  interval :: GenomeInterval
  count :: nat
  edges :: "(nat \<times> nat) list"

record SVLocus =
  nodes :: "SVLocusNode list"
  indexWithinCollection :: nat

type_synonym NodeAddressType = "nat \<times> nat"

text \<open>
  \<^verbatim>\<open>_loci\<close>, \<^verbatim>\<open>_emptyLoci\<close>, \<^verbatim>\<open>_inodes\<close>, \<^verbatim>\<open>_source\<close> and the header. The
  index \<^verbatim>\<open>_inodes\<close> is a \<^verbatim>\<open>std::set\<close> of addresses under a comparator that reads
  the nodes; it is the list of its elements in iteration order. The shape of the tree
  behind it is not modelled. The header type is opaque.
\<close>

record 'h SVLocusSet =
  loci :: "SVLocus list"
  emptyLoci :: "nat set"
  inodes :: "NodeAddressType list"
  source :: string
  header :: 'h

text \<open>
  What can go wrong. The exceptions carry what the source prints; an \<^verbatim>\<open>assert\<close>
  that fails is \<open>AssertionFailed\<close> with the asserted condition; \<open>InvalidAddress\<close> is
  a read of a node that does not exist (not defined in the source); \<open>LocusFailure\<close> is a
  failure inside a routine of one locus.
\<close>

datatype assertion =
    LocusIndexBelowMax
  | FreeLocusIsEmpty
  | ToIndexInRange
  | IntersectNotEmpty
  | ValInHeadLocus
  | InputSuperFound
  | ToPtrInIndex
  | SameLocus
  | PositiveInterval

datatype error =
    NoIntersectingNodes NodeAddressType SVLocusNode nat
  | NodeMissingFromIndex NodeAddressType SVLocusNode
  | ConflictingIndexNumber NodeAddressType NodeAddressType
  | ConflictingNodeCounts nat nat
  | OverlappingNodes NodeAddressType GenomeInterval NodeAddressType GenomeInterval
  | AssertionFailed assertion
  | InvalidAddress NodeAddressType
  | LocusFailure nat

section \<open>Intervals\<close>

text \<open>
  Modelled from the spec: the header of \<^verbatim>\<open>known_pos_range\<close> and \<^verbatim>\<open>GenomeInterval\<close>
  is not among the sources. An interval is a chromosome and a half-open range with an
  overlap test and a superset test, ordered by chromosome, then begin position; the
  order is total, so the end position decides last.
\<close>

definition is_range_intersect :: "known_pos_range \<Rightarrow> known_pos_range \<Rightarrow> bool" where
  "is_range_intersect r p \<longleftrightarrow> end_pos p > begin_pos r \<and> begin_pos p < end_pos r"

definition is_superset_of :: "known_pos_range \<Rightarrow> known_pos_range \<Rightarrow> bool" where
  "is_superset_of r p \<longleftrightarrow> end_pos p \<le> end_pos r \<and> begin_pos p \<ge> begin_pos r"

definition isIntersect :: "GenomeInterval \<Rightarrow> GenomeInterval \<Rightarrow> bool" where
  "isIntersect a b \<longleftrightarrow> tid a = tid b \<and> is_range_intersect (range' a) (range' b)"

definition ivKey :: "GenomeInterval \<Rightarrow> int \<times> int \<times> int" where
  "ivKey iv = (tid iv, begin_pos (range' iv), end_pos (range' iv))"

definition intervalLess :: "GenomeInterval \<Rightarrow> GenomeInterval \<Rightarrow> bool" where
  "intervalLess a b \<longleftrightarrow> ivKey a < ivKey b"

section \<open>Addresses and the ordered index\<close>

definition getLocus :: "'h SVLocusSet \<Rightarrow> nat \<Rightarrow> SVLocus option" where
  "getLocus s li = (if li < length (loci s) then Some (loci s ! li) else None)"

definition getNode :: "'h SVLocusSet \<Rightarrow> NodeAddressType \<Rightarrow> SVLocusNode option" where
  "getNode s a =
     (case getLocus s (fst a) of
        None \<Rightarrow> None
      | Some l \<Rightarrow> if snd a < length (nodes l) then Some (nodes l ! snd a) else None)"

text \<open>
  Modelled from the spec: the comparator of the index (\<^verbatim>\<open>NodeAddressSorter\<close>, in the
  header) orders addresses by the interval of the node they refer to, ties broken by
  the address. It reads the nodes of both addresses, so it is meant for addresses
  that have a node. The key of an address without a node only makes \<open>addrKey\<close> a
  total function: the operations below hand the comparator an address of their
  caller only after checking that it has a node, and fail with \<open>InvalidAddress\<close>
  when it has none; the other addresses they look up are those of nodes they have
  just read or made.
\<close>

definition addrKey ::
  "'h SVLocusSet \<Rightarrow> NodeAddressType \<Rightarrow> (int \<times> int \<times> int) option \<times> NodeAddressType" where
  "addrKey s a = (map_option (\<lambda>n. ivKey (interval n)) (getNode s a), a)"

definition NodeAddressSorter :: "'h SVLocusSet \<Rightarrow> NodeAddressType \<Rightarrow> NodeAddressType \<Rightarrow> bool" where
  "NodeAddressSorter s a b \<longleftrightarrow> addrKey s a < addrKey s b"

text \<open>
  The operations of the ordered set on its iteration order: \<^verbatim>\<open>find\<close> returns the
  element equivalent to the key under the comparator, \<^verbatim>\<open>insert\<close> puts a new element
  before the first one that is not less and leaves the set alone when an equivalent
  element is there, \<^verbatim>\<open>erase\<close> removes the equivalent element.
\<close>

definition indexFind :: "'h SVLocusSet \<Rightarrow> NodeAddressType list \<Rightarrow> NodeAddressType \<Rightarrow> NodeAddressType option" where
  "indexFind s xs a =
     List.find (\<lambda>e. \<not> NodeAddressSorter s e a \<and> \<not> NodeAddressSorter s a e) xs"

definition indexInsert :: "'h SVLocusSet \<Rightarrow> NodeAddressType \<Rightarrow> NodeAddressType list \<Rightarrow> NodeAddressType list" where
  "indexInsert s a xs =
     (case indexFind s xs a of
        Some e \<Rightarrow> xs
      | None \<Rightarrow> takeWhile (\<lambda>e. NodeAddressSorter s e a) xs @ a # dropWhile (\<lambda>e. NodeAddressSorter s e a) xs)"

definition indexErase :: "'h SVLocusSet \<Rightarrow> NodeAddressType \<Rightarrow> NodeAddressType list \<Rightarrow> NodeAddressType list" where
  "indexErase s a xs =
     filter (\<lambda>e. NodeAddressSorter s e a \<or> NodeAddressSorter s a e) xs"

definition indexSorted :: "'h SVLocusSet \<Rightarrow> bool" where
  "indexSorted s \<longleftrightarrow> sorted_wrt (NodeAddressSorter s) (inodes s)"

section \<open>The consistency checker\<close>

text \<open>
  \<^verbatim>\<open>checkState\<close>. The check of one locus (\<^verbatim>\<open>SVLocus::checkState\<close>) is not among the
  sources and is the parameter \<open>lc\<close>: it accepts a locus or raises.
\<close>

fun checkNodeLoop :: "'h SVLocusSet \<Rightarrow> nat \<Rightarrow> SVLocus \<Rightarrow> nat list \<Rightarrow> error + unit" where
  "checkNodeLoop s locusIndex locus [] = Inr ()"
| "checkNodeLoop s locusIndex locus (nodeIndex # rest) =
     (case indexFind s (inodes s) (locusIndex, nodeIndex) of
        None \<Rightarrow> Inl (NodeMissingFromIndex (locusIndex, nodeIndex) (nodes locus ! nodeIndex))
      | Some citer \<Rightarrow>
          if fst citer \<noteq> locusIndex \<or> snd citer \<noteq> nodeIndex
          then Inl (ConflictingIndexNumber citer (locusIndex, nodeIndex))
          else checkNodeLoop s locusIndex locus rest)"

fun checkLociLoop ::
  "(SVLocus \<Rightarrow> bool) \<Rightarrow> 'h SVLocusSet \<Rightarrow> nat \<Rightarrow> nat \<Rightarrow> SVLocus list \<Rightarrow> error + nat" where
  "checkLociLoop lc s locusIndex totalNodeCount [] = Inr totalNodeCount"
| "checkLociLoop lc s locusIndex totalNodeCount (locus # rest) =
     (if \<not> lc locus then Inl (LocusFailure locusIndex)
      else case checkNodeLoop s locusIndex locus [0..<length (nodes locus)] of
        Inl e \<Rightarrow> Inl e
      | Inr u \<Rightarrow>
          checkLociLoop lc s (Suc locusIndex) (totalNodeCount + length (nodes locus)) rest)"

fun checkOverlapLoop ::
  "'h SVLocusSet \<Rightarrow> (NodeAddressType \<times> GenomeInterval) option \<Rightarrow> NodeAddressType list \<Rightarrow> error + unit" where
  "checkOverlapLoop s lastSeen [] = Inr ()"
| "checkOverlapLoop s lastSeen (addy # rest) =
     (case getNode s addy of
        None \<Rightarrow> Inl (InvalidAddress addy)
      | Some n \<Rightarrow>
          if \<not> begin_pos (range' (interval n)) < end_pos (range' (interval n))
          then Inl (AssertionFailed PositiveInterval)
          else (case lastSeen of
              None \<Rightarrow> checkOverlapLoop s (Some (addy, interval n)) rest
            | Some (lastAddy, lastInterval) \<Rightarrow>
                if tid (interval n) = tid lastInterval \<and>
                   end_pos (range' lastInterval) > begin_pos (range' (interval n))
                then Inl (OverlappingNodes lastAddy lastInterval addy (interval n))
                else checkOverlapLoop s (Some (addy, interval n)) rest))"

definition checkState :: "(SVLocus \<Rightarrow> bool) \<Rightarrow> bool \<Rightarrow> 'h SVLocusSet \<Rightarrow> error + unit" where
  "checkState lc isCheckOverlap s =
     (case checkLociLoop lc s 0 0 (loci s) of
        Inl e \<Rightarrow> Inl e
      | Inr totalNodeCount \<Rightarrow>
          if totalNodeCount \<noteq> length (inodes s)
          then Inl (ConflictingNodeCounts totalNodeCount (length (inodes s)))
          else if \<not> isCheckOverlap then Inr ()
          else checkOverlapLoop s None (inodes s))"

section \<open>The operations of one locus, as the collection sees them\<close>

text \<open>
  Modelled from the spec: \<^verbatim>\<open>SVLocus\<close> and the header of \<^verbatim>\<open>SVLocusSet\<close> are not
  among the sources. A locus appends a node (\<open>addNode\<close>), absorbs the nodes of another
  locus with their edges renumbered to the new slots (\<open>copyLocus\<close>), folds one of its
  nodes into another (\<open>mergeNode\<close>), deletes a node (\<open>removeNode\<close>) and empties itself
  (\<open>clearLocus\<close>, which also makes the slot reusable). Each of them tells the
  collection which addresses appear and disappear, and the collection inserts them
  into the index and erases them from it. The locus index given to these operations
  has been checked by the caller.
\<close>

definition addNode :: "'h SVLocusSet \<Rightarrow> nat \<Rightarrow> SVLocusNode \<Rightarrow> 'h SVLocusSet" where
  "addNode s li n =
     (let l = loci s ! li;
          s1 = s\<lparr>loci := (loci s)[li := l\<lparr>nodes := nodes l @ [n]\<rparr>]\<rparr>
      in s1\<lparr>inodes := indexInsert s1 (li, length (nodes l)) (inodes s1)\<rparr>)"

definition shiftEdges :: "nat \<Rightarrow> SVLocusNode \<Rightarrow> SVLocusNode" where
  "shiftEdges off n = n\<lparr>edges := map (\<lambda>(t, c). (t + off, c)) (edges n)\<rparr>"

definition copyLocus :: "'h SVLocusSet \<Rightarrow> nat \<Rightarrow> SVLocus \<Rightarrow> 'h SVLocusSet" where
  "copyLocus s toIndex fromLocus =
     foldl (\<lambda>s' n. addNode s' toIndex n) s
       (map (shiftEdges (length (nodes (loci s ! toIndex)))) (nodes fromLocus))"

definition updateIndex :: "'h SVLocusSet \<Rightarrow> nat \<Rightarrow> 'h SVLocusSet" where
  "updateIndex s li = s\<lparr>loci := (loci s)[li := (loci s ! li)\<lparr>indexWithinCollection := li\<rparr>]\<rparr>"

definition clearLocus :: "'h SVLocusSet \<Rightarrow> nat \<Rightarrow> 'h SVLocusSet" where
  "clearLocus s li =
     (let l = loci s ! li
      in s\<lparr>loci := (loci s)[li := l\<lparr>nodes := []\<rparr>],
           inodes := foldl (\<lambda>xs ni. indexErase s (li, ni) xs) (inodes s) [0..<length (nodes l)],
           emptyLoci := insert li (emptyLoci s)\<rparr>)"

text \<open>
  Folding a node into another: the count and the edges of the source go to the
  target, the counts of edges with the same target slot are summed, and every edge of
  the locus that pointed at the source points at the target. The spec leaves open
  whether the interval of the target grows; \<open>grow\<close> is that policy, and the index
  entry of the target is erased before and inserted after, so that it stands where
  its new interval belongs. It fails when a slot does not exist.
\<close>

fun addEdge :: "(nat \<times> nat) list \<Rightarrow> nat \<times> nat \<Rightarrow> (nat \<times> nat) list" where
  "addEdge [] e = [e]"
| "addEdge ((t', c') # es) (t, c) =
     (if t' = t then (t', c' + c) # es else (t', c') # addEdge es (t, c))"

definition redirectEdges :: "nat \<Rightarrow> nat \<Rightarrow> (nat \<times> nat) list \<Rightarrow> (nat \<times> nat) list" where
  "redirectEdges fromSlot toSlot es =
     foldl addEdge [] (map (\<lambda>(t, c). (if t = fromSlot then toSlot else t, c)) es)"

definition mergeNode ::
  "(GenomeInterval \<Rightarrow> GenomeInterval \<Rightarrow> GenomeInterval) \<Rightarrow> 'h SVLocusSet \<Rightarrow> nat \<Rightarrow> nat \<Rightarrow> nat
     \<Rightarrow> error + 'h SVLocusSet" where
  "mergeNode grow s li fromSlot toSlot =
     (case (getNode s (li, fromSlot), getNode s (li, toSlot)) of
        (Some f, Some t) \<Rightarrow>
          let l = loci s ! li;
              t' = t\<lparr>interval := grow (interval t) (interval f),
                     count := count t + count f,
                     edges := foldl addEdge (edges t) (edges f)\<rparr>;
              ns = map (\<lambda>n. n\<lparr>edges := redirectEdges fromSlot toSlot (edges n)\<rparr>)
                     ((nodes l)[toSlot := t']);
              s1 = s\<lparr>loci := (loci s)[li := l\<lparr>nodes := ns\<rparr>]\<rparr>
          in Inr (s1\<lparr>inodes := indexInsert s1 (li, toSlot) (indexErase s (li, toSlot) (inodes s))\<rparr>)
      | _ \<Rightarrow> Inl (LocusFailure li))"

text \<open>
  Deleting a node: the nodes above it move one slot down, edges that pointed at it
  go, edges that pointed above it are renumbered, and the index follows the
  addresses. A slot that does not exist leaves nothing to delete.
\<close>

definition renumberEdges :: "nat \<Rightarrow> (nat \<times> nat) list \<Rightarrow> (nat \<times> nat) list" where
  "renumberEdges slot es =
     map (\<lambda>(t, c). (if t > slot then t - 1 else t, c)) (filter (\<lambda>(t, c). t \<noteq> slot) es)"

definition removeNode :: "'h SVLocusSet \<Rightarrow> NodeAddressType \<Rightarrow> 'h SVLocusSet" where
  "removeNode s a =
     (case getNode s a of
        None \<Rightarrow> s
      | Some n \<Rightarrow>
          let li = fst a; slot = snd a; l = loci s ! li;
              ns = map (\<lambda>n. n\<lparr>edges := renumberEdges slot (edges n)\<rparr>)
                     (take slot (nodes l) @ drop (Suc slot) (nodes l));
              s1 = s\<lparr>loci := (loci s)[li := l\<lparr>nodes := ns\<rparr>]\<rparr>;
              erased = foldl (\<lambda>xs ni. indexErase s (li, ni) xs) (inodes s) [slot..<length (nodes l)]
          in s1\<lparr>inodes := foldl (\<lambda>xs ni. indexInsert s1 (li, ni) xs) erased [slot..<length ns]\<rparr>)"

section \<open>Inserting a locus\<close>

text \<open>\<^verbatim>\<open>LocusIndexType\<close> is \<^verbatim>\<open>unsigned\<close>; its largest value bounds the locus index.\<close>

definition maxIndex :: nat where
  "maxIndex = 4294967295"

definition emptyLocus :: SVLocus where
  "emptyLocus = \<lparr>nodes = [], indexWithinCollection = 0\<rparr>"

definition insertLocus :: "'h SVLocusSet \<Rightarrow> SVLocus \<Rightarrow> error + ('h SVLocusSet \<times> nat)" where
  "insertLocus s inputLocus =
     (if emptyLoci s = {} then
        let locusIndex = length (loci s)
        in if \<not> locusIndex < maxIndex then Inl (AssertionFailed LocusIndexBelowMax)
           else Inr (copyLocus (updateIndex (s\<lparr>loci := loci s @ [emptyLocus]\<rparr>) locusIndex)
                       locusIndex inputLocus, locusIndex)
      else
        let locusIndex = Min (emptyLoci s)
        in case getLocus s locusIndex of
             None \<Rightarrow> Inl (InvalidAddress (locusIndex, 0))
           | Some l \<Rightarrow>
               if nodes l \<noteq> [] then Inl (AssertionFailed FreeLocusIsEmpty)
               else Inr (copyLocus (updateIndex (s\<lparr>emptyLoci := emptyLoci s - {locusIndex}\<rparr>) locusIndex)
                           locusIndex inputLocus, locusIndex))"

section \<open>The intersection sweep\<close>

text \<open>
  \<^verbatim>\<open>getNodeIntersect\<close>: one scan forward from the lower bound of the input address and
  one scan backward from it. A scan skips the addresses of the input locus, stops at
  the first other node that does not intersect the input node, and collects the rest.
\<close>

fun scanIntersect ::
  "'h SVLocusSet \<Rightarrow> nat \<Rightarrow> SVLocusNode \<Rightarrow> NodeAddressType list \<Rightarrow> error + NodeAddressType list" where
  "scanIntersect s locusIndex inputNode [] = Inr []"
| "scanIntersect s locusIndex inputNode (a # rest) =
     (if fst a = locusIndex then scanIntersect s locusIndex inputNode rest
      else case getNode s a of
        None \<Rightarrow> Inl (InvalidAddress a)
      | Some n \<Rightarrow>
          if \<not> isIntersect (interval inputNode) (interval n) then Inr []
          else (case scanIntersect s locusIndex inputNode rest of
              Inl e \<Rightarrow> Inl e
            | Inr found \<Rightarrow> Inr (a # found)))"

definition getNodeIntersect ::
  "'h SVLocusSet \<Rightarrow> nat \<Rightarrow> nat \<Rightarrow> error + NodeAddressType list" where
  "getNodeIntersect s locusIndex nodeIndex =
     (let inputAddy = (locusIndex, nodeIndex);
          lowerPart = takeWhile (\<lambda>e. NodeAddressSorter s e inputAddy) (inodes s);
          upperPart = dropWhile (\<lambda>e. NodeAddressSorter s e inputAddy) (inodes s)
      in case getNode s inputAddy of
           None \<Rightarrow> Inl (InvalidAddress inputAddy)
         | Some inputNode \<Rightarrow>
             (case scanIntersect s locusIndex inputNode upperPart of
                Inl e \<Rightarrow> Inl e
              | Inr fwd \<Rightarrow>
                  (case scanIntersect s locusIndex inputNode (rev lowerPart) of
                     Inl e \<Rightarrow> Inl e
                   | Inr bwd \<Rightarrow> Inr (foldl (\<lambda>xs a. indexInsert s a xs) [] (fwd @ bwd)))))"

section \<open>Consolidation\<close>

text \<open>
  \<^verbatim>\<open>combineLoci\<close>. Its third argument defaults, in the header, to clearing the
  source (the spec: sources that are not the staging locus are cleared).
\<close>

definition combineLoci :: "'h SVLocusSet \<Rightarrow> nat \<Rightarrow> nat \<Rightarrow> bool \<Rightarrow> error + 'h SVLocusSet" where
  "combineLoci s fromIndex toIndex isClearSource =
     (if \<not> toIndex < length (loci s) then Inl (AssertionFailed ToIndexInRange)
      else if fromIndex = toIndex then Inr s
      else if fromIndex \<ge> length (loci s) then Inr s
      else if nodes (loci s ! fromIndex) = [] then Inr s
      else let s1 = copyLocus s toIndex (loci s ! fromIndex)
           in Inr (if isClearSource then clearLocus s1 fromIndex else s1))"

text \<open>The first loop of \<^verbatim>\<open>moveIntersectToLowIndex\<close>, over the intersecting addresses.\<close>

fun lowestLoop :: "nat \<Rightarrow> bool \<Rightarrow> NodeAddressType list \<Rightarrow> nat" where
  "lowestLoop locusIndex isFirst [] = locusIndex"
| "lowestLoop locusIndex isFirst (val # rest) =
     (if \<not> isFirst \<and> fst val \<ge> locusIndex then lowestLoop locusIndex isFirst rest
      else lowestLoop (fst val) False rest)"

fun combineAll :: "'h SVLocusSet \<Rightarrow> nat \<Rightarrow> NodeAddressType list \<Rightarrow> error + 'h SVLocusSet" where
  "combineAll s locusIndex [] = Inr s"
| "combineAll s locusIndex (val # rest) =
     (case combineLoci s (fst val) locusIndex True of
        Inl e \<Rightarrow> Inl e
      | Inr s1 \<Rightarrow> combineAll s1 locusIndex rest)"

definition moveIntersectToLowIndex ::
  "'h SVLocusSet \<Rightarrow> NodeAddressType list \<Rightarrow> nat \<Rightarrow> nat \<Rightarrow> error + ('h SVLocusSet \<times> nat)" where
  "moveIntersectToLowIndex s intersect startLocusIndex locusIndex0 =
     (let startHeadLocusIndex = locusIndex0;
          isClearSource = (startLocusIndex \<noteq> startHeadLocusIndex);
          locusIndex = lowestLoop locusIndex0 True intersect
      in case combineLoci s startHeadLocusIndex locusIndex isClearSource of
           Inl e \<Rightarrow> Inl e
         | Inr s1 \<Rightarrow>
             (case combineAll s1 locusIndex intersect of
                Inl e \<Rightarrow> Inl e
              | Inr s2 \<Rightarrow> Inr (s2, locusIndex)))"

section \<open>Merging one locus\<close>

text \<open>
  \<^verbatim>\<open>mergeNodePtr\<close>. The search of the index for the target compares the target
  with entries of the index, unless the index is empty, and the comparator reads the
  node of the target: a target without a node is a read of a node that does not
  exist, before any assertion is reached.
\<close>

definition mergeNodePtr ::
  "(GenomeInterval \<Rightarrow> GenomeInterval \<Rightarrow> GenomeInterval) \<Rightarrow> 'h SVLocusSet
     \<Rightarrow> NodeAddressType \<Rightarrow> NodeAddressType \<Rightarrow> error + 'h SVLocusSet" where
  "mergeNodePtr grow s fromPtr toPtr =
     (if inodes s \<noteq> [] \<and> getNode s toPtr = None then Inl (InvalidAddress toPtr)
      else case indexFind s (inodes s) toPtr of
        None \<Rightarrow> Inl (AssertionFailed ToPtrInIndex)
      | Some iter \<Rightarrow>
          if fst fromPtr \<noteq> fst toPtr then Inl (AssertionFailed SameLocus)
          else mergeNode grow s (fst fromPtr) (snd fromPtr) (snd toPtr))"

text \<open>
  The map from interval to node index that fixes the order of the visit: a
  \<^verbatim>\<open>std::map\<close>, which keeps the first node index inserted under a key.
\<close>

fun nodeMapInsert :: "GenomeInterval \<times> nat \<Rightarrow> (GenomeInterval \<times> nat) list \<Rightarrow> (GenomeInterval \<times> nat) list" where
  "nodeMapInsert kv [] = [kv]"
| "nodeMapInsert (k, v) ((k', v') # rest) =
     (if intervalLess k k' then (k, v) # (k', v') # rest
      else if intervalLess k' k then (k', v') # nodeMapInsert (k, v) rest
      else (k', v') # rest)"

definition nodeMapOf :: "SVLocus \<Rightarrow> (GenomeInterval \<times> nat) list" where
  "nodeMapOf startLocus =
     foldl (\<lambda>m nodeIndex. nodeMapInsert (interval (nodes startLocus ! nodeIndex), nodeIndex) m) []
       [0..<length (nodes startLocus)]"

text \<open>
  The search for the node that is a superset of the input node, which leaves the
  other intersecting addresses in \<open>nodeIndices\<close>.
\<close>

fun superLoop ::
  "'h SVLocusSet \<Rightarrow> nat \<Rightarrow> known_pos_range \<Rightarrow> NodeAddressType option \<Rightarrow> NodeAddressType list
     \<Rightarrow> NodeAddressType list \<Rightarrow> error + (NodeAddressType option \<times> NodeAddressType list)" where
  "superLoop s headLocusIndex inputRange inputSuperAddy nodeIndices [] =
     Inr (inputSuperAddy, nodeIndices)"
| "superLoop s headLocusIndex inputRange inputSuperAddy nodeIndices (val # rest) =
     (if fst val \<noteq> headLocusIndex then Inl (AssertionFailed ValInHeadLocus)
      else if inputSuperAddy = None then
        (case getNode s val of
           None \<Rightarrow> Inl (InvalidAddress val)
         | Some n \<Rightarrow>
             if is_superset_of (range' (interval n)) inputRange
             then superLoop s headLocusIndex inputRange (Some val) nodeIndices rest
             else superLoop s headLocusIndex inputRange inputSuperAddy (nodeIndices @ [val]) rest)
      else superLoop s headLocusIndex inputRange inputSuperAddy (nodeIndices @ [val]) rest)"

text \<open>The loop that merges and removes, with the swap towards the lower address.\<close>

fun foldLoop ::
  "(GenomeInterval \<Rightarrow> GenomeInterval \<Rightarrow> GenomeInterval) \<Rightarrow> 'h SVLocusSet \<Rightarrow> NodeAddressType
     \<Rightarrow> NodeAddressType list \<Rightarrow> error + 'h SVLocusSet" where
  "foldLoop grow s mergeTargetAddy [] = Inr s"
| "foldLoop grow s mergeTargetAddy (nodeAddy # rest) =
     (let fromAddy = (if nodeAddy < mergeTargetAddy then mergeTargetAddy else nodeAddy);
          toAddy = (if nodeAddy < mergeTargetAddy then nodeAddy else mergeTargetAddy)
      in case mergeNodePtr grow s fromAddy toAddy of
           Inl e \<Rightarrow> Inl e
         | Inr s1 \<Rightarrow> foldLoop grow (removeNode s1 fromAddy) toAddy rest)"

text \<open>
  Lines 127 to 166 of \<^verbatim>\<open>merge\<close>: the choice of the absorbing node among the
  addresses of the second query, and the folding of the others into it.
\<close>

definition foldInputNode ::
  "(GenomeInterval \<Rightarrow> GenomeInterval \<Rightarrow> GenomeInterval) \<Rightarrow> 'h SVLocusSet \<Rightarrow> nat
     \<Rightarrow> known_pos_range \<Rightarrow> NodeAddressType list \<Rightarrow> error + 'h SVLocusSet" where
  "foldInputNode grow s headLocusIndex inputRange intersect =
     (case superLoop s headLocusIndex inputRange None [] intersect of
        Inl e \<Rightarrow> Inl e
      | Inr (None, nodeIndices) \<Rightarrow> Inl (AssertionFailed InputSuperFound)
      | Inr (Some inputSuperAddy, nodeIndices) \<Rightarrow>
          foldLoop grow s inputSuperAddy (rev (sort nodeIndices)))"

text \<open>
  Lines 105 to 166 of \<^verbatim>\<open>merge\<close>: consolidation, the second query, and the folding.
\<close>

definition mergeInputNode ::
  "(GenomeInterval \<Rightarrow> GenomeInterval \<Rightarrow> GenomeInterval) \<Rightarrow> 'h SVLocusSet \<Rightarrow> NodeAddressType list
     \<Rightarrow> nat \<Rightarrow> nat \<Rightarrow> nat \<Rightarrow> error + ('h SVLocusSet \<times> nat)" where
  "mergeInputNode grow s intersect startLocusIndex headLocusIndex0 nodeIndex =
     (case moveIntersectToLowIndex s intersect startLocusIndex headLocusIndex0 of
        Inl e \<Rightarrow> Inl e
      | Inr (s1, headLocusIndex) \<Rightarrow>
          (case getNodeIntersect s1 startLocusIndex nodeIndex of
             Inl e \<Rightarrow> Inl e
           | Inr intersect2 \<Rightarrow>
               if intersect2 = [] then Inl (AssertionFailed IntersectNotEmpty)
               else (case getNode s1 (startLocusIndex, nodeIndex) of
                  None \<Rightarrow> Inl (InvalidAddress (startLocusIndex, nodeIndex))
                | Some inputNode \<Rightarrow>
                    (case foldInputNode grow s1 headLocusIndex (range' (interval inputNode)) intersect2 of
                       Inl e \<Rightarrow> Inl e
                     | Inr s2 \<Rightarrow> Inr (s2, headLocusIndex)))))"

text \<open>The body of the loop over the nodes of the staging locus, lines 74 to 166.\<close>

definition mergeVisit ::
  "(GenomeInterval \<Rightarrow> GenomeInterval \<Rightarrow> GenomeInterval) \<Rightarrow> 'h SVLocusSet
     \<Rightarrow> nat \<Rightarrow> nat \<Rightarrow> nat \<Rightarrow> error + ('h SVLocusSet \<times> nat)" where
  "mergeVisit grow s startLocusIndex headLocusIndex nodeIndex =
     (case getNodeIntersect s startLocusIndex nodeIndex of
        Inl e \<Rightarrow> Inl e
      | Inr intersect \<Rightarrow>
          if headLocusIndex \<noteq> startLocusIndex then
            (if intersect = [] then
               (case getNode s (startLocusIndex, nodeIndex) of
                  None \<Rightarrow> Inl (InvalidAddress (startLocusIndex, nodeIndex))
                | Some n \<Rightarrow> Inl (NoIntersectingNodes (startLocusIndex, nodeIndex) n headLocusIndex))
             else if 1 = length intersect then Inr (s, headLocusIndex)
             else mergeInputNode grow s intersect startLocusIndex headLocusIndex nodeIndex)
          else
            (if intersect = [] then Inr (s, headLocusIndex)
             else mergeInputNode grow s intersect startLocusIndex headLocusIndex nodeIndex))"

fun mergeLoop ::
  "(GenomeInterval \<Rightarrow> GenomeInterval \<Rightarrow> GenomeInterval) \<Rightarrow> 'h SVLocusSet
     \<Rightarrow> nat \<Rightarrow> nat \<Rightarrow> nat list \<Rightarrow> error + ('h SVLocusSet \<times> nat)" where
  "mergeLoop grow s startLocusIndex headLocusIndex [] = Inr (s, headLocusIndex)"
| "mergeLoop grow s startLocusIndex headLocusIndex (nodeIndex # rest) =
     (case mergeVisit grow s startLocusIndex headLocusIndex nodeIndex of
        Inl e \<Rightarrow> Inl e
      | Inr (s1, headLocusIndex1) \<Rightarrow> mergeLoop grow s1 startLocusIndex headLocusIndex1 rest)"

definition merge ::
  "(GenomeInterval \<Rightarrow> GenomeInterval \<Rightarrow> GenomeInterval) \<Rightarrow> 'h SVLocusSet \<Rightarrow> SVLocus
     \<Rightarrow> error + 'h SVLocusSet" where
  "merge grow s inputLocus =
     (case insertLocus s inputLocus of
        Inl e \<Rightarrow> Inl e
      | Inr (s1, startLocusIndex) \<Rightarrow>
          (case mergeLoop grow s1 startLocusIndex startLocusIndex
                  (map snd (nodeMapOf (loci s1 ! startLocusIndex))) of
             Inl e \<Rightarrow> Inl e
           | Inr (s2, headLocusIndex) \<Rightarrow>
               Inr (if startLocusIndex \<noteq> headLocusIndex then clearLocus s2 startLocusIndex else s2)))"

section \<open>Merging a collection\<close>

text \<open>
  \<^verbatim>\<open>merge(SVLocusSet&)\<close>. What the handler writes to the log is part of the result:
  the source of the input collection and the index of the locus. The handler catches
  exceptions; a failed \<^verbatim>\<open>assert\<close> and a read of a node that does not exist end the
  process and never reach a handler.
\<close>

datatype logLine = MergeFailed string nat

fun caught :: "error \<Rightarrow> bool" where
  "caught (AssertionFailed a) = False"
| "caught (InvalidAddress a) = False"
| "caught e = True"

fun mergeSetLoop ::
  "(GenomeInterval \<Rightarrow> GenomeInterval \<Rightarrow> GenomeInterval) \<Rightarrow> 'h SVLocusSet \<Rightarrow> string
     \<Rightarrow> SVLocus list \<Rightarrow> logLine list \<times> (error + 'h SVLocusSet)" where
  "mergeSetLoop grow s src [] = ([], Inr s)"
| "mergeSetLoop grow s src (locus # rest) =
     (case merge grow s locus of
        Inl e \<Rightarrow>
          (if caught e then [MergeFailed src (indexWithinCollection locus)] else [], Inl e)
      | Inr s1 \<Rightarrow> mergeSetLoop grow s1 src rest)"

definition mergeSet ::
  "(GenomeInterval \<Rightarrow> GenomeInterval \<Rightarrow> GenomeInterval) \<Rightarrow> 'h SVLocusSet \<Rightarrow> 'h SVLocusSet
     \<Rightarrow> logLine list \<times> (error + 'h SVLocusSet)" where
  "mergeSet grow s inputSet = mergeSetLoop grow s (source inputSet) (loci inputSet)"

section \<open>The region query\<close>



section \<open>Persistence\<close>

text \<open>
  The archive is the header record followed by the locus records; the binary
  encoding belongs to the serialization library. \<^verbatim>\<open>load\<close> reads records until the
  stream ends.
\<close>

type_synonym 'h archive = "'h \<times> SVLocus list"

definition save :: "'h SVLocusSet \<Rightarrow> 'h archive" where
  "save s = (header s, filter (\<lambda>locus. nodes locus \<noteq> []) (loci s))"

fun loadLoop :: "SVLocus list \<Rightarrow> SVLocus list \<Rightarrow> SVLocus list" where
  "loadLoop ls [] = ls"
| "loadLoop ls (locus # rest) =
     (if nodes locus = [] then loadLoop ls rest
      else loadLoop (ls @ [locus\<lparr>indexWithinCollection := length ls\<rparr>]) rest)"

fun reconstructLoop :: "'h SVLocusSet \<Rightarrow> nat \<Rightarrow> SVLocus list \<Rightarrow> 'h SVLocusSet" where
  "reconstructLoop s locusIndex [] = s"
| "reconstructLoop s locusIndex (locus # rest) =
     (let s1 = s\<lparr>inodes := foldl (\<lambda>xs nodeIndex. indexInsert s (locusIndex, nodeIndex) xs)
                              (inodes s) [0..<length (nodes locus)]\<rparr>;
          s2 = (if nodes locus = [] then s1\<lparr>emptyLoci := insert locusIndex (emptyLoci s1)\<rparr> else s1)
      in reconstructLoop s2 (Suc locusIndex) rest)"

definition reconstructIndex :: "'h SVLocusSet \<Rightarrow> 'h SVLocusSet" where
  "reconstructIndex s = reconstructLoop (s\<lparr>inodes := [], emptyLoci := {}\<rparr>) 0 (loci s)"

text \<open>Modelled from the spec: \<^verbatim>\<open>clear\<close>, in the header, clears the collection.\<close>

definition clear :: "'h SVLocusSet \<Rightarrow> 'h SVLocusSet" where
  "clear s = s\<lparr>loci := [], emptyLoci := {}, inodes := []\<rparr>"

definition load ::
  "(SVLocus \<Rightarrow> bool) \<Rightarrow> 'h SVLocusSet \<Rightarrow> string \<Rightarrow> 'h archive \<Rightarrow> error + 'h SVLocusSet" where
  "load lc s filename ar =
     (let s1 = (clear s)\<lparr>source := filename, header := fst ar\<rparr>;
          s2 = s1\<lparr>loci := loadLoop (loci s1) (snd ar)\<rparr>;
          s3 = reconstructIndex s2
      in case checkState lc True s3 of
           Inl e \<Rightarrow> Inl e
         | Inr u \<Rightarrow> Inr s3)"

section \<open>Notions used in the statements\<close>

text \<open>The number of nodes of all loci, and the interval behind an indexed address.\<close>

definition totalNodeCount :: "'h SVLocusSet \<Rightarrow> nat" where
  "totalNodeCount s = sum_list (map (\<lambda>l. length (nodes l)) (loci s))"

definition ivAt :: "'h SVLocusSet \<Rightarrow> NodeAddressType \<Rightarrow> GenomeInterval" where
  "ivAt s a = interval (the (getNode s a))"

definition posLen :: "GenomeInterval \<Rightarrow> bool" where
  "posLen iv \<longleftrightarrow> begin_pos (range' iv) < end_pos (range' iv)"

text \<open>The test of the overlap scan of \<^verbatim>\<open>checkState\<close> on the last and the current interval.\<close>

definition clash :: "GenomeInterval \<Rightarrow> GenomeInterval \<Rightarrow> bool" where
  "clash l t \<longleftrightarrow> tid t = tid l \<and> end_pos (range' l) > begin_pos (range' t)"

text \<open>Concrete nodes and collections for the examples.\<close>

definition mkNode :: "int \<Rightarrow> int \<Rightarrow> int \<Rightarrow> nat \<Rightarrow> (nat \<times> nat) list \<Rightarrow> SVLocusNode" where
  "mkNode c b e k es =
     \<lparr>interval = \<lparr>tid = c, range' = \<lparr>begin_pos = b, end_pos = e\<rparr>\<rparr>, count = k, edges = es\<rparr>"

definition emptySet :: "unit SVLocusSet" where
  "emptySet = \<lparr>loci = [], emptyLoci = {}, inodes = [], source = [], header = ()\<rparr>"

text \<open>
  The collection after merging the units (chr1, 100, 200), (chr1, 150, 250) and
  (chr1, 500, 600) into the empty one.
\<close>

definition exampleSet :: "unit SVLocusSet" where
  "exampleSet =
     \<lparr>loci = [\<lparr>nodes = [mkNode 1 100 250 2 []], indexWithinCollection = 0\<rparr>,
              \<lparr>nodes = [mkNode 1 500 600 1 []], indexWithinCollection = 1\<rparr>],
      emptyLoci = {}, inodes = [(0, 0), (1, 0)], source = [], header = ()\<rparr>"

text \<open>
  The merges of the folding loop as a list of pairs (source, target), and the loop
  run from such a list.
\<close>

fun mergePlan :: "NodeAddressType \<Rightarrow> NodeAddressType list \<Rightarrow> (NodeAddressType \<times> NodeAddressType) list" where
  "mergePlan mergeTargetAddy [] = []"
| "mergePlan mergeTargetAddy (nodeAddy # rest) =
     (if nodeAddy < mergeTargetAddy then (mergeTargetAddy, nodeAddy) # mergePlan nodeAddy rest
      else (nodeAddy, mergeTargetAddy) # mergePlan mergeTargetAddy rest)"

fun runPlan ::
  "(GenomeInterval \<Rightarrow> GenomeInterval \<Rightarrow> GenomeInterval) \<Rightarrow> 'h SVLocusSet
     \<Rightarrow> (NodeAddressType \<times> NodeAddressType) list \<Rightarrow> error + 'h SVLocusSet" where
  "runPlan grow s [] = Inr s"
| "runPlan grow s ((fromAddy, toAddy) # rest) =
     (case mergeNodePtr grow s fromAddy toAddy of
        Inl e \<Rightarrow> Inl e
      | Inr s1 \<Rightarrow> runPlan grow (removeNode s1 fromAddy) rest)"

text \<open>The policy of growing the target to the union of the two ranges.\<close>

definition growUnion :: "GenomeInterval \<Rightarrow> GenomeInterval \<Rightarrow> GenomeInterval" where
  "growUnion a b =
     a\<lparr>range' := \<lparr>begin_pos = min (begin_pos (range' a)) (begin_pos (range' b)),
                   end_pos = max (end_pos (range' a)) (end_pos (range' b))\<rparr>\<rparr>"

text \<open>
  The collection \<open>exampleSet\<close> with a staging locus at index 2: one whose node touches
  nothing, and one whose node lies inside the node of locus 0.
\<close>

definition stagedFar :: "unit SVLocusSet" where
  "stagedFar =
     \<lparr>loci = [\<lparr>nodes = [mkNode 1 100 250 2 []], indexWithinCollection = 0\<rparr>,
              \<lparr>nodes = [mkNode 1 500 600 1 []], indexWithinCollection = 1\<rparr>,
              \<lparr>nodes = [mkNode 1 700 800 1 []], indexWithinCollection = 2\<rparr>],
      emptyLoci = {}, inodes = [(0, 0), (1, 0), (2, 0)], source = [], header = ()\<rparr>"

definition stagedNear :: "unit SVLocusSet" where
  "stagedNear =
     \<lparr>loci = [\<lparr>nodes = [mkNode 1 100 250 2 []], indexWithinCollection = 0\<rparr>,
              \<lparr>nodes = [mkNode 1 500 600 1 []], indexWithinCollection = 1\<rparr>,
              \<lparr>nodes = [mkNode 1 120 130 1 []], indexWithinCollection = 2\<rparr>],
      emptyLoci = {}, inodes = [(0, 0), (2, 0), (1, 0)], source = [], header = ()\<rparr>"

text \<open>The collection \<open>stagedNear\<close> after the node of its staging locus has been merged.\<close>

definition mergedNear :: "unit SVLocusSet" where
  "mergedNear =
     \<lparr>loci = [\<lparr>nodes = [mkNode 1 100 250 3 []], indexWithinCollection = 0\<rparr>,
              \<lparr>nodes = [mkNode 1 500 600 1 []], indexWithinCollection = 1\<rparr>,
              \<lparr>nodes = [mkNode 1 120 130 1 []], indexWithinCollection = 2\<rparr>],
      emptyLoci = {}, inodes = [(0, 0), (2, 0), (1, 0)], source = [], header = ()\<rparr>"

text \<open>
  The batch merge in the words of the spec: the merge of one locus applied to every
  locus of the input in turn, stopping at the first failure.
\<close>

fun mergeEach ::
  "(GenomeInterval \<Rightarrow> GenomeInterval \<Rightarrow> GenomeInterval) \<Rightarrow> 'h SVLocusSet \<Rightarrow> SVLocus list
     \<Rightarrow> error + 'h SVLocusSet" where
  "mergeEach grow s [] = Inr s"
| "mergeEach grow s (locus # rest) =
     (case merge grow s locus of Inl e \<Rightarrow> Inl e | Inr s1 \<Rightarrow> mergeEach grow s1 rest)"

text \<open>
  A unit whose second node has length zero, and a collection that holds it at
  index 7 followed by a sound unit.
\<close>

definition badUnit :: SVLocus where
  "badUnit = \<lparr>nodes = [mkNode 1 120 130 1 [(1, 1)], mkNode 1 300 300 1 [(0, 1)]],
              indexWithinCollection = 7\<rparr>"

definition otherSet :: "unit SVLocusSet" where
  "otherSet =
     \<lparr>loci = [badUnit, \<lparr>nodes = [mkNode 1 700 800 1 []], indexWithinCollection = 8\<rparr>],
      emptyLoci = {}, inodes = [(0, 0), (0, 1), (1, 0)], source = ''other'', header = ()\<rparr>"

text \<open>
  A unit of two nodes that overlap each other and are joined by an edge, and the
  collection that holds just this unit.
\<close>

definition selfOverlapUnit :: SVLocus where
  "selfOverlapUnit = \<lparr>nodes = [mkNode 1 100 200 1 [(1, 1)], mkNode 1 150 250 1 [(0, 1)]],
              indexWithinCollection = 0\<rparr>"

definition overlapSet :: "unit SVLocusSet" where
  "overlapSet =
     \<lparr>loci = [selfOverlapUnit], emptyLoci = {}, inodes = [(0, 0), (0, 1)], source = [], header = ()\<rparr>"





text \<open>
  The collection \<open>exampleSet\<close> with the node of locus 1 missing from the index.
\<close>

definition unindexedSet :: "unit SVLocusSet" where
  "unindexedSet =
     \<lparr>loci = [\<lparr>nodes = [mkNode 1 100 250 2 []], indexWithinCollection = 0\<rparr>,
              \<lparr>nodes = [mkNode 1 500 600 1 []], indexWithinCollection = 1\<rparr>],
      emptyLoci = {}, inodes = [(0, 0)], source = [], header = ()\<rparr>"

text \<open>
  A unit of one node of length zero inside the node of locus 0 of \<open>exampleSet\<close>, and a
  collection that holds it at index 3 followed by a sound unit.
\<close>

definition zeroUnit :: SVLocus where
  "zeroUnit = \<lparr>nodes = [mkNode 1 120 120 1 []], indexWithinCollection = 3\<rparr>"

definition zeroSet :: "unit SVLocusSet" where
  "zeroSet =
     \<lparr>loci = [zeroUnit, \<lparr>nodes = [mkNode 1 700 800 1 []], indexWithinCollection = 4\<rparr>],
      emptyLoci = {}, inodes = [(0, 0), (1, 0)], source = ''other'', header = ()\<rparr>"


text \<open>
  The test of the search for the absorbing node: the range of the node at an address
  is a superset of the input range.
\<close>

definition isInputSuper :: "'h SVLocusSet \<Rightarrow> known_pos_range \<Rightarrow> NodeAddressType \<Rightarrow> bool" where
  "isInputSuper s inputRange v \<longleftrightarrow> is_superset_of (range' (ivAt s v)) inputRange"

text \<open>
  The collection \<open>stagedNear\<close> after consolidation for the node of its staging locus:
  the staging locus has been copied into locus 0.
\<close>

definition consolidatedNear :: "unit SVLocusSet" where
  "consolidatedNear =
     \<lparr>loci = [\<lparr>nodes = [mkNode 1 100 250 2 [], mkNode 1 120 130 1 []], indexWithinCollection = 0\<rparr>,
              \<lparr>nodes = [mkNode 1 500 600 1 []], indexWithinCollection = 1\<rparr>,
              \<lparr>nodes = [mkNode 1 120 130 1 []], indexWithinCollection = 2\<rparr>],
      emptyLoci = {}, inodes = [(0, 0), (0, 1), (2, 0), (1, 0)], source = [], header = ()\<rparr>"

section \<open>Basic facts\<close>

lemma addrKey_inj: "addrKey s a = addrKey s b \<longleftrightarrow> a = b"
  by (auto simp: addrKey_def)

lemma sorter_equiv_iff: "(\<not> NodeAddressSorter s e a \<and> \<not> NodeAddressSorter s a e) \<longleftrightarrow> e = a"
  unfolding NodeAddressSorter_def using addrKey_inj[of s e a] by (auto simp: not_less)

lemma indexFind_eq: "indexFind s xs a = (if a \<in> set xs then Some a else None)"
  unfolding indexFind_def sorter_equiv_iff
  by (induction xs) auto


lemma indexSorted_distinct: "indexSorted s \<Longrightarrow> distinct (inodes s)"
proof -
  assume "indexSorted s"
  then have "sorted_wrt (<) (map (addrKey s) (inodes s))"
    by (simp add: indexSorted_def NodeAddressSorter_def[abs_def] sorted_wrt_map)
  then have "distinct (map (addrKey s) (inodes s))"
    by (simp add: strict_sorted_iff)
  then show ?thesis by (simp add: distinct_map)
qed

lemma successively_nth:
  "successively P xs \<longleftrightarrow> (\<forall>i. Suc i < length xs \<longrightarrow> P (xs ! i) (xs ! Suc i))"
proof (induction P xs rule: successively.induct)
  case (3 P x y xs)
  show ?case
  proof
    assume a: "successively P (x # y # xs)"
    show "\<forall>i. Suc i < length (x # y # xs) \<longrightarrow> P ((x # y # xs) ! i) ((x # y # xs) ! Suc i)"
    proof (intro allI impI)
      fix i assume "Suc i < length (x # y # xs)"
      then show "P ((x # y # xs) ! i) ((x # y # xs) ! Suc i)"
        using a 3 by (cases i) auto
    qed
  next
    assume a: "\<forall>i. Suc i < length (x # y # xs) \<longrightarrow> P ((x # y # xs) ! i) ((x # y # xs) ! Suc i)"
    have "P x y" using a[rule_format, of 0] by simp
    moreover have "\<forall>i. Suc i < length (y # xs) \<longrightarrow> P ((y # xs) ! i) ((y # xs) ! Suc i)"
      using a[rule_format, of "Suc i" for i] by simp
    ultimately show "successively P (x # y # xs)" using 3 by simp
  qed
qed simp_all

lemma checkNodeLoop_iff:
  "checkNodeLoop s li l nis = Inr () \<longleftrightarrow> (\<forall>ni\<in>set nis. (li, ni) \<in> set (inodes s))"
  by (induction nis) (auto simp: indexFind_eq)

lemma checkLociLoop_iff:
  "(\<forall>l\<in>set ls. lc l) \<Longrightarrow>
   checkLociLoop lc s k t ls = Inr r \<longleftrightarrow>
     (r = t + sum_list (map (\<lambda>l. length (nodes l)) ls) \<and>
      (\<forall>j<length ls. \<forall>ni<length (nodes (ls ! j)). (k + j, ni) \<in> set (inodes s)))"
proof (induction ls arbitrary: k t)
  case Nil
  then show ?case by auto
next
  case (Cons l ls)
  have lc: "lc l" "\<forall>l\<in>set ls. lc l" using Cons.prems by auto
  show ?case
  proof (cases "checkNodeLoop s k l [0..<length (nodes l)]")
    case (Inl e)
    then have "\<not> (\<forall>ni<length (nodes l). (k, ni) \<in> set (inodes s))"
      using checkNodeLoop_iff[of s k l "[0..<length (nodes l)]"] by auto
    then have "\<not> (\<forall>j<length (l # ls). \<forall>ni<length (nodes ((l # ls) ! j)). (k + j, ni) \<in> set (inodes s))"
      by (metis add.right_neutral length_greater_0_conv list.distinct(1) nth_Cons_0)
    then show ?thesis using Inl lc by simp
  next
    case (Inr u)
    then have h: "\<forall>ni<length (nodes l). (k, ni) \<in> set (inodes s)"
      using checkNodeLoop_iff[of s k l "[0..<length (nodes l)]"] by auto
    have split: "(\<forall>j<length (l # ls). \<forall>ni<length (nodes ((l # ls) ! j)). (k + j, ni) \<in> set (inodes s))
       \<longleftrightarrow> (\<forall>j<length ls. \<forall>ni<length (nodes (ls ! j)). (Suc k + j, ni) \<in> set (inodes s))"
      (is "?L \<longleftrightarrow> ?R")
    proof
      assume L: ?L
      show ?R
      proof (intro allI impI)
        fix j ni assume "j < length ls" "ni < length (nodes (ls ! j))"
        then show "(Suc k + j, ni) \<in> set (inodes s)"
          using L[rule_format, of "Suc j" ni] by simp
      qed
    next
      assume R: ?R
      show ?L
      proof (intro allI impI)
        fix j ni assume a: "j < length (l # ls)" "ni < length (nodes ((l # ls) ! j))"
        show "(k + j, ni) \<in> set (inodes s)"
        proof (cases j)
          case 0 then show ?thesis using a h by simp
        next
          case (Suc j') then show ?thesis using a R[rule_format, of j' ni] by simp
        qed
      qed
    qed
    show ?thesis
      using Inr lc Cons.IH[OF lc(2), of "Suc k" "t + length (nodes l)"] split
      by (simp add: add.assoc)
  qed
qed

lemma getNode_Some_iff:
  "(\<exists>n. getNode s a = Some n) \<longleftrightarrow> fst a < length (loci s) \<and> snd a < length (nodes (loci s ! fst a))"
  by (auto simp: getNode_def getLocus_def)

lemma live_set_eq:
  "{a. \<exists>n. getNode s a = Some n} = (SIGMA i:{..<length (loci s)}. {..<length (nodes (loci s ! i))})"
  by (auto simp: getNode_Some_iff)

lemma card_live: "card {a. \<exists>n. getNode s a = Some n} = totalNodeCount s"
proof -
  have "card {a. \<exists>n. getNode s a = Some n} = (\<Sum>i<length (loci s). length (nodes (loci s ! i)))"
    unfolding live_set_eq by simp
  also have "\<dots> = totalNodeCount s"
    unfolding totalNodeCount_def
    by (simp add: sum_list_sum_nth atLeast0LessThan)
  finally show ?thesis .
qed

lemma finite_live: "finite {a. \<exists>n. getNode s a = Some n}"
  unfolding live_set_eq by simp

lemma parity_all_live:
  assumes d: "distinct (inodes s)"
    and sub: "\<forall>a n. getNode s a = Some n \<longrightarrow> a \<in> set (inodes s)"
    and cnt: "totalNodeCount s = length (inodes s)"
  shows "set (inodes s) = {a. \<exists>n. getNode s a = Some n}"
proof -
  have "{a. \<exists>n. getNode s a = Some n} \<subseteq> set (inodes s)" using sub by auto
  moreover have "card (set (inodes s)) = card {a. \<exists>n. getNode s a = Some n}"
    using d cnt by (simp add: distinct_card card_live)
  ultimately show ?thesis
    by (metis card_subset_eq List.finite_set)
qed

lemma checkOverlapLoop_Some:
  assumes "\<forall>a\<in>set xs. \<exists>n. getNode s a = Some n"
  shows "checkOverlapLoop s (Some (la, ivAt s la)) xs = Inr () \<longleftrightarrow>
           (\<forall>a\<in>set xs. posLen (ivAt s a)) \<and> successively (\<lambda>a b. \<not> clash (ivAt s a) (ivAt s b)) (la # xs)"
  using assms
proof (induction xs arbitrary: la)
  case Nil then show ?case by simp
next
  case (Cons x xs)
  obtain n where n: "getNode s x = Some n" using Cons.prems by auto
  have iv: "ivAt s x = interval n" by (simp add: ivAt_def n)
  have IH: "checkOverlapLoop s (Some (x, ivAt s x)) xs = Inr () \<longleftrightarrow>
           (\<forall>a\<in>set xs. posLen (ivAt s a)) \<and> successively (\<lambda>a b. \<not> clash (ivAt s a) (ivAt s b)) (x # xs)"
    using Cons.IH[of x] Cons.prems by simp
  show ?case
    using IH by (auto simp: n iv[symmetric] posLen_def clash_def)
qed

lemma checkOverlapLoop_None:
  assumes "\<forall>a\<in>set xs. \<exists>n. getNode s a = Some n"
  shows "checkOverlapLoop s None xs = Inr () \<longleftrightarrow>
           (\<forall>a\<in>set xs. posLen (ivAt s a)) \<and> successively (\<lambda>a b. \<not> clash (ivAt s a) (ivAt s b)) xs"
proof (cases xs)
  case Nil then show ?thesis by simp
next
  case (Cons x xs')
  obtain n where n: "getNode s x = Some n" using assms Cons by auto
  have iv: "ivAt s x = interval n" by (simp add: ivAt_def n)
  have "\<forall>a\<in>set xs'. \<exists>n. getNode s a = Some n" using assms Cons by simp
  from checkOverlapLoop_Some[OF this, of x] show ?thesis
    unfolding Cons by (auto simp: n iv[symmetric] posLen_def)
qed

lemma sorter_live_order:
  assumes "NodeAddressSorter s a b" "getNode s a = Some n" "getNode s b = Some m"
  shows "tid (interval n) \<le> tid (interval m) \<and>
    (tid (interval n) = tid (interval m) \<longrightarrow>
       begin_pos (range' (interval n)) \<le> begin_pos (range' (interval m)))"
  using assms unfolding NodeAddressSorter_def addrKey_def ivKey_def
  by (auto simp: less_prod_def less_eq_prod_def split: if_splits)

lemma not_Inr_unit: "(\<exists>e. (r :: error + unit) = Inl e) \<longleftrightarrow> r \<noteq> Inr ()"
  by (cases r) auto

section \<open>The consistency checker: when it fails\<close>

text \<open>The case in which every locus passes the check of one locus.\<close>

lemma checkState_fails_when_loci_pass:
  assumes srt: "indexSorted s" and lcs: "\<forall>l\<in>set (loci s). lc l"
  shows "(\<exists>e. checkState lc isCheckOverlap s = Inl e) \<longleftrightarrow>
     (\<exists>a n. getNode s a = Some n \<and> a \<notin> set (inodes s))
   \<or> totalNodeCount s \<noteq> length (inodes s)
   \<or> (isCheckOverlap \<and>
        ((\<exists>a\<in>set (inodes s). \<exists>n. getNode s a = Some n \<and>
             end_pos (range' (interval n)) \<le> begin_pos (range' (interval n)))
       \<or> (\<exists>i n m. Suc i < length (inodes s) \<and> getNode s (inodes s ! i) = Some n \<and>
             getNode s (inodes s ! Suc i) = Some m \<and> isIntersect (interval n) (interval m))))"
  (is "?F \<longleftrightarrow> ?D1 \<or> ?D2 \<or> (isCheckOverlap \<and> (?D3 \<or> ?D4))")
proof -
  have d: "distinct (inodes s)" using srt by (rule indexSorted_distinct)
  have loop: "checkLociLoop lc s 0 0 (loci s) = Inr r \<longleftrightarrow> (r = totalNodeCount s \<and> \<not> ?D1)" for r
    using checkLociLoop_iff[OF lcs, of s 0 0 r] getNode_Some_iff[of s]
    by (auto simp: totalNodeCount_def)
  show ?thesis
  proof (cases "?D1")
    case True
    then have "\<And>r. checkLociLoop lc s 0 0 (loci s) \<noteq> Inr r" using loop by blast
    then have "?F" by (cases "checkLociLoop lc s 0 0 (loci s)") (auto simp: checkState_def)
    then show ?thesis using True by blast
  next
    case nD1: False
    then have l0: "checkLociLoop lc s 0 0 (loci s) = Inr (totalNodeCount s)" using loop by blast
    show ?thesis
    proof (cases "?D2")
      case True
      then show ?thesis using l0 by (simp add: checkState_def)
    next
      case nD2: False
      have live: "set (inodes s) = {a. \<exists>n. getNode s a = Some n}"
        using parity_all_live[OF d] nD1 nD2 by blast
      then have live': "\<forall>a\<in>set (inodes s). \<exists>n. getNode s a = Some n" by blast
      show ?thesis
      proof (cases isCheckOverlap)
        case False
        then show ?thesis using l0 nD1 nD2 by (simp add: checkState_def)
      next
        case True
        have cs: "checkState lc isCheckOverlap s = checkOverlapLoop s None (inodes s)"
          using l0 nD2 True by (simp add: checkState_def)
        have ok: "checkOverlapLoop s None (inodes s) = Inr () \<longleftrightarrow>
           (\<forall>a\<in>set (inodes s). posLen (ivAt s a)) \<and>
           (\<forall>i. Suc i < length (inodes s) \<longrightarrow> \<not> clash (ivAt s (inodes s ! i)) (ivAt s (inodes s ! Suc i)))"
          using checkOverlapLoop_None[OF live'] by (simp add: successively_nth)
        have d3: "?D3 \<longleftrightarrow> \<not> (\<forall>a\<in>set (inodes s). posLen (ivAt s a))"
          using live' by (fastforce simp: posLen_def ivAt_def)
        have d4: "?D4 \<longleftrightarrow> \<not> (\<forall>i. Suc i < length (inodes s) \<longrightarrow>
                      \<not> clash (ivAt s (inodes s ! i)) (ivAt s (inodes s ! Suc i)))"
          if pos: "\<forall>a\<in>set (inodes s). posLen (ivAt s a)"
        proof -
          have adj: "isIntersect (ivAt s (inodes s ! i)) (ivAt s (inodes s ! Suc i)) \<longleftrightarrow>
                     clash (ivAt s (inodes s ! i)) (ivAt s (inodes s ! Suc i))"
            if i: "Suc i < length (inodes s)" for i
          proof -
            obtain n where n: "getNode s (inodes s ! i) = Some n"
              using live' i by (metis Suc_lessD nth_mem)
            obtain m where m: "getNode s (inodes s ! Suc i) = Some m"
              using live' i by (metis nth_mem)
            have "NodeAddressSorter s (inodes s ! i) (inodes s ! Suc i)"
              using srt i unfolding indexSorted_def by (simp add: sorted_wrt_nth_less)
            from sorter_live_order[OF this n m]
            have o: "tid (interval n) = tid (interval m) \<longrightarrow>
               begin_pos (range' (interval n)) \<le> begin_pos (range' (interval m))" by simp
            have "posLen (interval m)" using pos i m by (metis ivAt_def nth_mem option.sel)
            then show ?thesis using o
              by (auto simp: ivAt_def n m isIntersect_def is_range_intersect_def clash_def posLen_def)
          qed
          have "?D4 \<longleftrightarrow> (\<exists>i. Suc i < length (inodes s) \<and>
                  isIntersect (ivAt s (inodes s ! i)) (ivAt s (inodes s ! Suc i)))"
          proof
            assume ?D4
            then show "\<exists>i. Suc i < length (inodes s) \<and>
                  isIntersect (ivAt s (inodes s ! i)) (ivAt s (inodes s ! Suc i))"
              by (auto simp: ivAt_def)
          next
            assume "\<exists>i. Suc i < length (inodes s) \<and>
                  isIntersect (ivAt s (inodes s ! i)) (ivAt s (inodes s ! Suc i))"
            then obtain i where i: "Suc i < length (inodes s)"
              "isIntersect (ivAt s (inodes s ! i)) (ivAt s (inodes s ! Suc i))" by blast
            obtain n where n: "getNode s (inodes s ! i) = Some n"
              using live' i by (metis Suc_lessD nth_mem)
            obtain m where m: "getNode s (inodes s ! Suc i) = Some m"
              using live' i by (metis nth_mem)
            show ?D4 using i n m by (auto simp: ivAt_def)
          qed
          then show ?thesis using adj by auto
        qed
        have "?F \<longleftrightarrow> checkOverlapLoop s None (inodes s) \<noteq> Inr ()"
          unfolding cs by (rule not_Inr_unit)
        also have "\<dots> \<longleftrightarrow> ?D3 \<or> ?D4"
          using ok d3 d4 by blast
        finally show ?thesis using nD1 nD2 True by blast
      qed
    qed
  qed
qed

text \<open>The definitions that evaluate the index on a concrete collection.\<close>

lemmas eval_defs = indexFind_def NodeAddressSorter_def addrKey_def getNode_def getLocus_def ivKey_def
  mkNode_def less_prod_def less_eq_prod_def

lemma checkLociLoop_rejects:
  "\<exists>l\<in>set ls. \<not> lc l \<Longrightarrow> \<exists>e. checkLociLoop lc s k t ls = Inl e"
proof (induction ls arbitrary: k t)
  case Nil then show ?case by simp
next
  case (Cons l ls)
  show ?case
  proof (cases "lc l")
    case False then show ?thesis by simp
  next
    case True
    then have r: "\<exists>l\<in>set ls. \<not> lc l" using Cons.prems by auto
    show ?thesis
    proof (cases "checkNodeLoop s k l [0..<length (nodes l)]")
      case (Inl e) then show ?thesis using True by simp
    next
      case (Inr u)
      then show ?thesis using True Cons.IH[OF r, of "Suc k" "t + length (nodes l)"] by simp
    qed
  qed
qed

text \<open>
  C9 (amended). On a collection whose index is in comparator order,
  \<^verbatim>\<open>checkState\<close> raises exactly when a locus fails the check of one locus
  (\<^verbatim>\<open>SVLocus::checkState\<close>, which it runs first on every locus), or a real node has no
  index entry with its address, or the number of nodes is not the size of the index,
  or, with the overlap check requested, an indexed interval has zero or negative
  length or two adjacent index entries intersect (same chromosome, overlapping
  ranges). Otherwise it returns.
\<close>

theorem checkState_fails_iff:
  assumes srt: "indexSorted s"
  shows "(\<exists>e. checkState lc isCheckOverlap s = Inl e) \<longleftrightarrow>
     (\<exists>l\<in>set (loci s). \<not> lc l)
   \<or> (\<exists>a n. getNode s a = Some n \<and> a \<notin> set (inodes s))
   \<or> totalNodeCount s \<noteq> length (inodes s)
   \<or> (isCheckOverlap \<and>
        ((\<exists>a\<in>set (inodes s). \<exists>n. getNode s a = Some n \<and>
             end_pos (range' (interval n)) \<le> begin_pos (range' (interval n)))
       \<or> (\<exists>i n m. Suc i < length (inodes s) \<and> getNode s (inodes s ! i) = Some n \<and>
             getNode s (inodes s ! Suc i) = Some m \<and> isIntersect (interval n) (interval m))))"
proof (cases "\<forall>l\<in>set (loci s). lc l")
  case True
  from checkState_fails_when_loci_pass[OF srt True, of isCheckOverlap] True
  show ?thesis by blast
next
  case False
  then have r: "\<exists>l\<in>set (loci s). \<not> lc l" by blast
  from checkLociLoop_rejects[OF r, of s 0 0] obtain e where
    "checkLociLoop lc s 0 0 (loci s) = Inl e" by blast
  then have "checkState lc isCheckOverlap s = Inl e" by (simp add: checkState_def)
  then show ?thesis using r by blast
qed

text \<open>
  C9 as stated lists no failure of a locus. With a check of one locus that rejects,
  \<^verbatim>\<open>checkState\<close> raises on the collection \<open>exampleSet\<close>, whose index is in order,
  although every real node is indexed under its address, the counts agree, every
  interval has positive length and no two adjacent entries intersect.
\<close>

theorem checkState_locus_failure_counterexample:
  "indexSorted exampleSet \<and>
   checkState (\<lambda>l. False) True exampleSet = Inl (LocusFailure 0) \<and>
   \<not> (\<exists>a n. getNode exampleSet a = Some n \<and> a \<notin> set (inodes exampleSet)) \<and>
   totalNodeCount exampleSet = length (inodes exampleSet) \<and>
   \<not> (\<exists>a\<in>set (inodes exampleSet). \<exists>n. getNode exampleSet a = Some n \<and>
         end_pos (range' (interval n)) \<le> begin_pos (range' (interval n))) \<and>
   \<not> (\<exists>i n m. Suc i < length (inodes exampleSet) \<and> getNode exampleSet (inodes exampleSet ! i) = Some n \<and>
         getNode exampleSet (inodes exampleSet ! Suc i) = Some m \<and> isIntersect (interval n) (interval m))"
proof -
  have s: "indexSorted exampleSet"
    by (simp add: indexSorted_def exampleSet_def eval_defs)
  have l: "\<forall>l\<in>set (loci exampleSet). (\<lambda>l. True) l" by simp
  have c: "checkState (\<lambda>l. True) True exampleSet = Inr ()"
    by (simp add: checkState_def exampleSet_def eval_defs)
  have f: "checkState (\<lambda>l. False) True exampleSet = Inl (LocusFailure 0)"
    by (simp add: checkState_def exampleSet_def)
  from checkState_fails_when_loci_pass[OF s l, of True] c s f
  show ?thesis by simp
qed

theorem checkState_fails_iff_witness:
  "indexSorted exampleSet \<and> checkState (\<lambda>l. True) True exampleSet = Inr () \<and>
   totalNodeCount exampleSet = length (inodes exampleSet) \<and>
   indexSorted overlapSet \<and>
   (\<exists>e. checkState (\<lambda>l. True) True overlapSet = Inl e) \<and>
   (\<exists>e. checkState (\<lambda>l. False) False exampleSet = Inl e)"
proof -
  have s: "indexSorted exampleSet"
    by (simp add: indexSorted_def exampleSet_def eval_defs)
  have c: "checkState (\<lambda>l. True) True exampleSet = Inr ()"
    by (simp add: checkState_def exampleSet_def eval_defs)
  from checkState_fails_iff[OF s, of "\<lambda>l. True" True] c
  have n: "totalNodeCount exampleSet = length (inodes exampleSet)" by simp
  have so: "indexSorted overlapSet"
    by (simp add: indexSorted_def overlapSet_def selfOverlapUnit_def eval_defs)
  have "Suc 0 < length (inodes overlapSet) \<and>
        getNode overlapSet (inodes overlapSet ! 0) = Some (mkNode 1 100 200 1 [(1, 1)]) \<and>
        getNode overlapSet (inodes overlapSet ! Suc 0) = Some (mkNode 1 150 250 1 [(0, 1)]) \<and>
        isIntersect (interval (mkNode 1 100 200 1 [(1, 1)])) (interval (mkNode 1 150 250 1 [(0, 1)]))"
    by (simp add: overlapSet_def selfOverlapUnit_def getNode_def getLocus_def mkNode_def
        isIntersect_def is_range_intersect_def)
  then have o: "\<exists>e. checkState (\<lambda>l. True) True overlapSet = Inl e"
    using checkState_fails_iff[OF so, of "\<lambda>l. True" True] by blast
  have "\<exists>l\<in>set (loci exampleSet). \<not> (\<lambda>l. False) l" by (auto simp: exampleSet_def)
  then have r: "\<exists>e. checkState (\<lambda>l. False) False exampleSet = Inl e"
    using checkState_fails_iff[OF s, of "\<lambda>l. False" False] by blast
  from s c n so o r show ?thesis by blast
qed

section \<open>The decision taken for a visited node\<close>

text \<open>
  C2. For a visited staging node whose query returned \<open>intersect\<close>: with no target
  chosen yet and an empty intersection the node is skipped and the collection and the
  head index stay as they are; with a target chosen and an empty intersection the
  merge raises the error that carries the address of the node and the node with its
  interval; with a target chosen and exactly one intersecting address the node is
  accepted and nothing changes.
\<close>

theorem mergeVisit_policy:
  assumes "getNodeIntersect s startLocusIndex nodeIndex = Inr intersect"
  shows "(headLocusIndex = startLocusIndex \<and> intersect = [] \<longrightarrow>
            mergeVisit grow s startLocusIndex headLocusIndex nodeIndex = Inr (s, headLocusIndex)) \<and>
         (headLocusIndex \<noteq> startLocusIndex \<and> intersect = [] \<longrightarrow>
            (\<exists>n. getNode s (startLocusIndex, nodeIndex) = Some n \<and>
                 mergeVisit grow s startLocusIndex headLocusIndex nodeIndex =
                   Inl (NoIntersectingNodes (startLocusIndex, nodeIndex) n headLocusIndex))) \<and>
         (headLocusIndex \<noteq> startLocusIndex \<and> length intersect = 1 \<longrightarrow>
            mergeVisit grow s startLocusIndex headLocusIndex nodeIndex = Inr (s, headLocusIndex))"
proof -
  obtain n where n: "getNode s (startLocusIndex, nodeIndex) = Some n"
    using assms by (cases "getNode s (startLocusIndex, nodeIndex)") (auto simp: getNodeIntersect_def)
  show ?thesis
    using assms n by (auto simp: mergeVisit_def)
qed

lemmas eval_more = getNodeIntersect_def indexInsert_def isIntersect_def is_range_intersect_def

theorem mergeVisit_policy_witness:
  "getNodeIntersect stagedFar 2 0 = Inr [] \<and>
   mergeVisit growUnion stagedFar 2 2 0 = Inr (stagedFar, 2) \<and>
   mergeVisit growUnion stagedFar 2 0 0 = Inl (NoIntersectingNodes (2, 0) (mkNode 1 700 800 1 []) 0) \<and>
   getNodeIntersect stagedNear 2 0 = Inr [(0, 0)] \<and>
   mergeVisit growUnion stagedNear 2 0 0 = Inr (stagedNear, 0)"
proof -
  have f: "getNodeIntersect stagedFar 2 0 = Inr []"
    by (simp add: stagedFar_def eval_more eval_defs)
  have n: "getNodeIntersect stagedNear 2 0 = Inr [(0, 0)]"
    by (simp add: stagedNear_def eval_more eval_defs)
  have g: "getNode stagedFar (2, 0) = Some (mkNode 1 700 800 1 [])"
    by (simp add: stagedFar_def getNode_def getLocus_def)
  from mergeVisit_policy[OF f, of 2 growUnion] mergeVisit_policy[OF f, of 0 growUnion]
       mergeVisit_policy[OF n, of 0 growUnion] f n g
  show ?thesis by simp
qed

section \<open>Merging one node into another\<close>

lemma foldLoop_runPlan: "foldLoop grow s t as = runPlan grow s (mergePlan t as)"
  by (induction as arbitrary: s t) (auto simp: Let_def split: sum.splits)

lemma mergePlan_members:
  "(f, t) \<in> set (mergePlan tg as) \<Longrightarrow> f \<in> insert tg (set as) \<and> t \<in> insert tg (set as)"
  by (induction as arbitrary: tg) (auto split: if_splits)

lemma superLoop_members:
  "superLoop s h r found acc vals = Inr (sp, rest) \<Longrightarrow>
     (\<forall>v\<in>set vals. fst v = h) \<and> set rest \<subseteq> set acc \<union> set vals \<and>
     (\<forall>x. sp = Some x \<longrightarrow> found = Some x \<or> x \<in> set vals)"
proof (induction vals arbitrary: found acc)
  case Nil then show ?case by auto
next
  case (Cons v vals)
  show ?case
  proof (cases "fst v = h")
    case False then show ?thesis using Cons.prems by simp
  next
    case h: True
    show ?thesis
    proof (cases found)
      case (Some y)
      then have "superLoop s h r found (acc @ [v]) vals = Inr (sp, rest)"
        using Cons.prems h by simp
      from Cons.IH[OF this] show ?thesis using h by auto
    next
      case None
      then obtain n where n: "getNode s v = Some n"
        using Cons.prems h by (cases "getNode s v") auto
      show ?thesis
      proof (cases "is_superset_of (range' (interval n)) r")
        case True
        then have "superLoop s h r (Some v) acc vals = Inr (sp, rest)"
          using Cons.prems h None n by simp
        from Cons.IH[OF this] show ?thesis using h by auto
      next
        case False
        then have "superLoop s h r found (acc @ [v]) vals = Inr (sp, rest)"
          using Cons.prems h None n by simp
        from Cons.IH[OF this] show ?thesis using h None by auto
      qed
    qed
  qed
qed

text \<open>
  C10. \<^verbatim>\<open>mergeNodePtr\<close> asserts that the target address is in the index and that
  source and target are addresses of one locus: for a target that has a node (or an
  empty index, which is searched without a comparison) it fails on the first
  assertion when the target is not indexed, on the second when the target is indexed
  and the loci differ, and a call that returns satisfied both. In \<^verbatim>\<open>merge\<close> the
  merges of a visited node run on the collection that consolidation returned, and
  every source and target of them is an address of the head locus.
\<close>

theorem mergeNodePtr_intra_locus:
  "((inodes s = [] \<or> getNode s toPtr \<noteq> None) \<and> toPtr \<notin> set (inodes s) \<longrightarrow>
      mergeNodePtr grow s fromPtr toPtr = Inl (AssertionFailed ToPtrInIndex)) \<and>
   (getNode s toPtr \<noteq> None \<and> toPtr \<in> set (inodes s) \<and> fst fromPtr \<noteq> fst toPtr \<longrightarrow>
      mergeNodePtr grow s fromPtr toPtr = Inl (AssertionFailed SameLocus)) \<and>
   (\<forall>s'. mergeNodePtr grow s fromPtr toPtr = Inr s' \<longrightarrow>
      toPtr \<in> set (inodes s) \<and> fst fromPtr = fst toPtr) \<and>
   (\<forall>s2 head. mergeInputNode grow s intersect start head0 ni = Inr (s2, head) \<longrightarrow>
      (\<exists>s1 intersect2 inputNode target rest.
         moveIntersectToLowIndex s intersect start head0 = Inr (s1, head) \<and>
         getNodeIntersect s1 start ni = Inr intersect2 \<and>
         getNode s1 (start, ni) = Some inputNode \<and>
         superLoop s1 head (range' (interval inputNode)) None [] intersect2 = Inr (Some target, rest) \<and>
         runPlan grow s1 (mergePlan target (rev (sort rest))) = Inr s2 \<and>
         (\<forall>(f, t)\<in>set (mergePlan target (rev (sort rest))). fst f = head \<and> fst t = head)))"
proof (intro conjI allI impI)
  assume "(inodes s = [] \<or> getNode s toPtr \<noteq> None) \<and> toPtr \<notin> set (inodes s)"
  then show "mergeNodePtr grow s fromPtr toPtr = Inl (AssertionFailed ToPtrInIndex)"
    by (auto simp: mergeNodePtr_def indexFind_eq)
next
  assume "getNode s toPtr \<noteq> None \<and> toPtr \<in> set (inodes s) \<and> fst fromPtr \<noteq> fst toPtr"
  then show "mergeNodePtr grow s fromPtr toPtr = Inl (AssertionFailed SameLocus)"
    by (auto simp: mergeNodePtr_def indexFind_eq)
next
  fix s' assume "mergeNodePtr grow s fromPtr toPtr = Inr s'"
  then show "toPtr \<in> set (inodes s)"
    by (auto simp: mergeNodePtr_def indexFind_eq split: if_splits)
next
  fix s' assume "mergeNodePtr grow s fromPtr toPtr = Inr s'"
  then show "fst fromPtr = fst toPtr"
    by (auto simp: mergeNodePtr_def indexFind_eq split: if_splits)
next
  fix s2 head
  assume a: "mergeInputNode grow s intersect start head0 ni = Inr (s2, head)"
  then obtain s1 where m: "moveIntersectToLowIndex s intersect start head0 = Inr (s1, head)"
    by (auto simp: mergeInputNode_def split: sum.splits prod.splits if_splits option.splits)
  from a m obtain intersect2 where q: "getNodeIntersect s1 start ni = Inr intersect2"
    by (auto simp: mergeInputNode_def split: sum.splits)
  from a m q obtain inputNode where g: "getNode s1 (start, ni) = Some inputNode"
    by (auto simp: mergeInputNode_def split: if_splits option.splits)
  from a m q g have f: "foldInputNode grow s1 head (range' (interval inputNode)) intersect2 = Inr s2"
    by (auto simp: mergeInputNode_def split: if_splits sum.splits)
  then obtain target rest where
    sl: "superLoop s1 head (range' (interval inputNode)) None [] intersect2 = Inr (Some target, rest)"
    and fl: "foldLoop grow s1 target (rev (sort rest)) = Inr s2"
    by (auto simp: foldInputNode_def split: sum.splits prod.splits option.splits)
  from superLoop_members[OF sl]
  have inh: "\<forall>v\<in>set intersect2. fst v = head" and sub: "set rest \<subseteq> set intersect2"
    and tg: "target \<in> set intersect2" by auto
  have "\<forall>(f, t)\<in>set (mergePlan target (rev (sort rest))). fst f = head \<and> fst t = head"
  proof (clarify)
    fix a b c d assume "((a, b), (c, d)) \<in> set (mergePlan target (rev (sort rest)))"
    from mergePlan_members[OF this] have "(a, b) \<in> set intersect2" "(c, d) \<in> set intersect2"
      using sub tg by auto
    then show "fst (a, b) = head \<and> fst (c, d) = head" using inh by blast
  qed
  with m q g sl fl
  show "\<exists>s1 intersect2 inputNode target rest.
         moveIntersectToLowIndex s intersect start head0 = Inr (s1, head) \<and>
         getNodeIntersect s1 start ni = Inr intersect2 \<and>
         getNode s1 (start, ni) = Some inputNode \<and>
         superLoop s1 head (range' (interval inputNode)) None [] intersect2 = Inr (Some target, rest) \<and>
         runPlan grow s1 (mergePlan target (rev (sort rest))) = Inr s2 \<and>
         (\<forall>(f, t)\<in>set (mergePlan target (rev (sort rest))). fst f = head \<and> fst t = head)"
    unfolding foldLoop_runPlan by blast
qed

lemmas eval_merge = mergeInputNode_def moveIntersectToLowIndex_def combineLoci_def copyLocus_def
  addNode_def shiftEdges_def clearLocus_def indexErase_def foldInputNode_def mergeNodePtr_def
  mergeNode_def removeNode_def redirectEdges_def renumberEdges_def is_superset_of_def
  growUnion_def Let_def

lemma mergeInputNode_near:
  "mergeInputNode growUnion stagedNear [(0, 0)] 2 2 0 = Inr (mergedNear, 0)"
  by (simp add: stagedNear_def mergedNear_def eval_merge eval_more eval_defs)

theorem mergeNodePtr_intra_locus_witness:
  "mergeNodePtr growUnion unindexedSet (0, 0) (1, 0) = Inl (AssertionFailed ToPtrInIndex) \<and>
   mergeNodePtr growUnion stagedNear (2, 0) (0, 0) = Inl (AssertionFailed SameLocus) \<and>
   mergeInputNode growUnion stagedNear [(0, 0)] 2 2 0 = Inr (mergedNear, 0) \<and>
   (\<exists>s1 target rest. moveIntersectToLowIndex stagedNear [(0, 0)] 2 2 = Inr (s1, 0) \<and>
      runPlan growUnion s1 (mergePlan target (rev (sort rest))) = Inr mergedNear)"
proof -
  have u: "getNode unindexedSet (1, 0) \<noteq> None" "(1, 0) \<notin> set (inodes unindexedSet)"
    by (simp_all add: unindexedSet_def getNode_def getLocus_def)
  have i: "getNode stagedNear (0, 0) \<noteq> None" "(0, 0) \<in> set (inodes stagedNear)"
    by (simp_all add: stagedNear_def getNode_def getLocus_def)
  have a: "mergeNodePtr growUnion unindexedSet (0, 0) (1, 0) = Inl (AssertionFailed ToPtrInIndex)"
    using mergeNodePtr_intra_locus[of unindexedSet "(1, 0)" growUnion "(0, 0)" "[]" 0 0 0] u by simp
  note t = mergeNodePtr_intra_locus[of stagedNear _ growUnion _ "[(0, 0)]" 2 2 0]
  have b: "mergeNodePtr growUnion stagedNear (2, 0) (0, 0) = Inl (AssertionFailed SameLocus)"
    using t[of "(0, 0)" "(2, 0)"] i by simp
  have c: "\<exists>s1 target rest. moveIntersectToLowIndex stagedNear [(0, 0)] 2 2 = Inr (s1, 0) \<and>
      runPlan growUnion s1 (mergePlan target (rev (sort rest))) = Inr mergedNear"
    using t[of "(0, 0)" "(0, 0)"] mergeInputNode_near by blast
  from a b c mergeInputNode_near show ?thesis by blast
qed

section \<open>Merging a collection: the first failure\<close>

lemma mergeSetLoop_snd: "snd (mergeSetLoop grow s src ls) = mergeEach grow s ls"
  by (induction ls arbitrary: s) (auto split: sum.splits)

lemma mergeSetLoop_ok: "snd (mergeSetLoop grow s src ls) = Inr s' \<Longrightarrow> fst (mergeSetLoop grow s src ls) = []"
  by (induction ls arbitrary: s) (auto split: sum.splits)

lemma mergeSetLoop_first_failure:
  "k < length ls \<Longrightarrow> mergeEach grow s (take k ls) = Inr sk \<Longrightarrow> merge grow sk (ls ! k) = Inl e \<Longrightarrow>
   mergeSetLoop grow s src ls =
     (if caught e then [MergeFailed src (indexWithinCollection (ls ! k))] else [], Inl e)"
proof (induction ls arbitrary: s k)
  case Nil then show ?case by simp
next
  case (Cons l ls)
  show ?case
  proof (cases k)
    case 0
    then show ?thesis using Cons.prems by simp
  next
    case (Suc k')
    then obtain s1 where s1: "merge grow s l = Inr s1" "mergeEach grow s1 (take k' ls) = Inr sk"
      using Cons.prems by (auto split: sum.splits)
    have "mergeSetLoop grow s1 src ls =
       (if caught e then [MergeFailed src (indexWithinCollection (ls ! k'))] else [], Inl e)"
      using Cons.IH[of k' s1] Cons.prems Suc s1 by simp
    then show ?thesis using s1 Suc by simp
  qed
qed

text \<open>
  C8 (amended). The batch merge is the merge of one locus applied to every locus of
  the input collection in turn. When all of them succeed nothing is reported. When
  the merge of the locus at position \<open>k\<close> is the first to fail and fails with an
  exception, the log holds the source label of the input collection and the index of
  that locus, the same error is the result, and no later locus is merged. When it
  fails an assertion, the process ends there: the error is the result, the log is
  empty, and no later locus is merged.
\<close>

theorem mergeSet_first_failure:
  "snd (mergeSet grow s inputSet) = mergeEach grow s (loci inputSet) \<and>
   (\<forall>s'. snd (mergeSet grow s inputSet) = Inr s' \<longrightarrow> fst (mergeSet grow s inputSet) = []) \<and>
   (\<forall>k sk e. k < length (loci inputSet) \<and> mergeEach grow s (take k (loci inputSet)) = Inr sk \<and>
        merge grow sk (loci inputSet ! k) = Inl e \<longrightarrow>
      mergeSet grow s inputSet =
        (if caught e then [MergeFailed (source inputSet) (indexWithinCollection (loci inputSet ! k))]
         else [], Inl e))"
  unfolding mergeSet_def
  using mergeSetLoop_snd mergeSetLoop_ok mergeSetLoop_first_failure by blast

lemmas eval_top = merge_def insertLocus_def updateIndex_def nodeMapOf_def mergeVisit_def
  intervalLess_def maxIndex_def emptyLocus_def

lemma merge_badUnit:
  "merge growUnion exampleSet badUnit =
     Inl (NoIntersectingNodes (2, 1) (mkNode 1 300 300 1 [(0, 1)]) 0)"
  by (simp add: exampleSet_def badUnit_def eval_top eval_merge eval_more eval_defs)

theorem mergeSet_first_failure_witness:
  "mergeSet growUnion exampleSet otherSet =
     ([MergeFailed ''other'' 7], Inl (NoIntersectingNodes (2, 1) (mkNode 1 300 300 1 [(0, 1)]) 0))"
proof -
  have l: "loci otherSet ! 0 = badUnit" "0 < length (loci otherSet)" "source otherSet = ''other''"
    by (simp_all add: otherSet_def)
  have i: "indexWithinCollection badUnit = 7" by (simp add: badUnit_def)
  from mergeSet_first_failure[of growUnion exampleSet otherSet] merge_badUnit l i
  show ?thesis by fastforce
qed

lemma merge_zeroUnit:
  "merge growUnion exampleSet zeroUnit = Inl (AssertionFailed IntersectNotEmpty)"
  by (simp add: exampleSet_def zeroUnit_def eval_top eval_merge eval_more eval_defs)

text \<open>
  C8 as stated has every failure of a single-locus merge reported and raised again.
  The node of \<open>zeroUnit\<close> intersects the node of locus 0, so its locus is consolidated,
  but it does not intersect its own copy, at which the second query stops: the
  assertion that the second intersection is not empty fails. A failed assertion ends
  the process and reaches no handler: the batch merge stops with an empty log.
\<close>

theorem mergeSet_unreported_counterexample:
  "merge growUnion exampleSet (loci zeroSet ! 0) = Inl (AssertionFailed IntersectNotEmpty) \<and>
   mergeSet growUnion exampleSet zeroSet = ([], Inl (AssertionFailed IntersectNotEmpty))"
proof -
  have l: "loci zeroSet ! 0 = zeroUnit" by (simp add: zeroSet_def)
  have "mergeSet growUnion exampleSet zeroSet = ([], Inl (AssertionFailed IntersectNotEmpty))"
    using merge_zeroUnit by (simp add: mergeSet_def zeroSet_def)
  then show ?thesis using l merge_zeroUnit by simp
qed

section \<open>The overlap invariant after a merge\<close>

lemma merge_selfOverlapUnit: "merge grow emptySet selfOverlapUnit = Inr overlapSet"
  by (simp add: emptySet_def selfOverlapUnit_def overlapSet_def eval_top eval_merge eval_more eval_defs)

text \<open>
  C1. The claim is that after every completed merge, starting from the empty
  collection, no two index entries on one chromosome overlap, which is what
  \<^verbatim>\<open>checkState(true)\<close> verifies. The sweep never compares two nodes of the staging
  locus with each other: merging a unit whose two nodes overlap into the empty
  collection completes, leaves both nodes in the index, in order and intersecting,
  and the overlap check of \<^verbatim>\<open>checkState\<close> raises on the result, whatever the policy
  of interval growth.
\<close>

theorem merge_leaves_overlap:
  "merge grow emptySet selfOverlapUnit = Inr overlapSet \<and>
   indexSorted overlapSet \<and>
   isIntersect (ivAt overlapSet (0, 0)) (ivAt overlapSet (0, 1)) \<and>
   checkState (\<lambda>l. True) True overlapSet =
     Inl (OverlappingNodes (0, 0) (interval (mkNode 1 100 200 1 [(1, 1)]))
                           (0, 1) (interval (mkNode 1 150 250 1 [(0, 1)])))"
proof -
  have "indexSorted overlapSet"
    by (simp add: indexSorted_def overlapSet_def selfOverlapUnit_def eval_defs)
  moreover have "isIntersect (ivAt overlapSet (0, 0)) (ivAt overlapSet (0, 1))"
    by (simp add: ivAt_def overlapSet_def selfOverlapUnit_def eval_more eval_defs)
  moreover have "checkState (\<lambda>l. True) True overlapSet =
     Inl (OverlappingNodes (0, 0) (interval (mkNode 1 100 200 1 [(1, 1)]))
                           (0, 1) (interval (mkNode 1 150 250 1 [(0, 1)])))"
    by (simp add: checkState_def overlapSet_def selfOverlapUnit_def eval_defs)
  ultimately show ?thesis using merge_selfOverlapUnit by simp
qed

section \<open>The intersection sweep: when it is exact\<close>















section \<open>The region query: its result and what it leaves behind\<close>





















section \<open>The folding of the intersecting nodes\<close>

lemma superLoop_eq:
  assumes "\<forall>v\<in>set vals. fst v = h" "\<forall>v\<in>set vals. \<exists>n. getNode s v = Some n"
  shows "superLoop s h r found acc vals =
     Inr (case found of
            Some x \<Rightarrow> (Some x, acc @ vals)
          | None \<Rightarrow> (List.find (isInputSuper s r) vals,
                     acc @ (case List.find (isInputSuper s r) vals of
                              None \<Rightarrow> vals | Some v \<Rightarrow> remove1 v vals)))"
  using assms
proof (induction vals arbitrary: found acc)
  case Nil
  then show ?case by (cases found) simp_all
next
  case (Cons v vals)
  have h: "fst v = h" and ih1: "\<forall>v\<in>set vals. fst v = h"
    and ih2: "\<forall>v\<in>set vals. \<exists>n. getNode s v = Some n"
    using Cons.prems by simp_all
  obtain n where n: "getNode s v = Some n" using Cons.prems(2) by auto
  have P: "isInputSuper s r v \<longleftrightarrow> is_superset_of (range' (interval n)) r"
    by (simp add: isInputSuper_def ivAt_def n)
  note IH = Cons.IH[OF ih1 ih2]
  show ?case
  proof (cases found)
    case (Some x)
    then show ?thesis using h IH[of "Some x" "acc @ [v]"] by simp
  next
    case None
    show ?thesis
    proof (cases "isInputSuper s r v")
      case True
      then show ?thesis using None h n P IH[of "Some v" acc] by simp
    next
      case False
      have ne: "w \<noteq> v" if "List.find (isInputSuper s r) vals = Some w" for w
        using that False by (auto simp: find_Some_iff)
      show ?thesis
        using None h n P False IH[of None "acc @ [v]"] ne
        by (auto split: option.splits)
    qed
  qed
qed

lemma mergePlan_lower:
  "distinct (tg # as) \<Longrightarrow> (f, t) \<in> set (mergePlan tg as) \<Longrightarrow> t < f"
proof (induction as arbitrary: tg)
  case Nil then show ?case by simp
next
  case (Cons a as)
  show ?case
  proof (cases "a < tg")
    case True
    have d: "distinct (a # as)" using Cons.prems(1) by simp
    from Cons.prems(2) True have "(f, t) = (tg, a) \<or> (f, t) \<in> set (mergePlan a as)" by simp
    then show ?thesis using True Cons.IH[OF d] by auto
  next
    case False
    have d: "distinct (tg # as)" using Cons.prems(1) by simp
    have lt: "tg < a" using False Cons.prems(1) by auto
    from Cons.prems(2) False have "(f, t) = (a, tg) \<or> (f, t) \<in> set (mergePlan tg as)" by simp
    then show ?thesis using lt Cons.IH[OF d] by auto
  qed
qed

text \<open>
  C5 (amended). In the folding step, on intersecting addresses that lie in the head
  locus and have nodes: the absorbing target is the first address in index order
  whose node is a superset of the input range, and when there is none the step fails
  the assertion; further supersets stay among the remaining addresses. The remaining
  addresses are put in descending order and folded in that order, each by a merge
  and the removal of the merged node, and with distinct addresses every merge goes
  from an address into a lower one.
\<close>

theorem foldInputNode_plan:
  assumes inh: "\<forall>v\<in>set intersect. fst v = headLocusIndex"
    and live: "\<forall>v\<in>set intersect. \<exists>n. getNode s v = Some n"
  shows "(case List.find (isInputSuper s inputRange) intersect of
            None \<Rightarrow> foldInputNode grow s headLocusIndex inputRange intersect
                      = Inl (AssertionFailed InputSuperFound)
          | Some target \<Rightarrow>
              foldInputNode grow s headLocusIndex inputRange intersect
                = runPlan grow s (mergePlan target (rev (sort (remove1 target intersect)))) \<and>
              sorted_wrt (\<lambda>a b. b \<le> a) (rev (sort (remove1 target intersect))) \<and>
              (distinct intersect \<longrightarrow>
                 (\<forall>(f, t)\<in>set (mergePlan target (rev (sort (remove1 target intersect)))). t < f)))"
proof (cases "List.find (isInputSuper s inputRange) intersect")
  case None
  then show ?thesis
    by (simp add: foldInputNode_def superLoop_eq[OF inh live])
next
  case (Some target)
  have tin: "target \<in> set intersect" using Some by (auto simp: find_Some_iff)
  have r: "foldInputNode grow s headLocusIndex inputRange intersect
                = runPlan grow s (mergePlan target (rev (sort (remove1 target intersect))))"
    using Some by (simp add: foldInputNode_def superLoop_eq[OF inh live] foldLoop_runPlan)
  have "sorted (sort (remove1 target intersect))" by simp
  then have d: "sorted_wrt (\<lambda>a b. b \<le> a) (rev (sort (remove1 target intersect)))"
    by (simp add: sorted_wrt_rev)
  have l: "\<forall>(f, t)\<in>set (mergePlan target (rev (sort (remove1 target intersect)))). t < f"
    if di: "distinct intersect"
  proof -
    have "distinct (target # rev (sort (remove1 target intersect)))"
      using di by simp
    then show ?thesis using mergePlan_lower by blast
  qed
  show ?thesis using Some r d l by simp
qed

text \<open>
  C5 as stated has exactly one intersecting node that is a superset of the input
  node. After the unit (chr1, 120, 130) has been staged in \<open>exampleSet\<close> and its locus
  consolidated into locus 0, the second query returns the node (chr1, 100, 250) and
  the copy of the input node, and both are supersets of the input node; the search
  takes the first, and the copy is folded into it like any other node.
\<close>

theorem foldInputNode_two_supersets_counterexample:
  "insertLocus exampleSet \<lparr>nodes = [mkNode 1 120 130 1 []], indexWithinCollection = 0\<rparr>
     = Inr (stagedNear, 2) \<and>
   moveIntersectToLowIndex stagedNear [(0, 0)] 2 2 = Inr (consolidatedNear, 0) \<and>
   getNodeIntersect consolidatedNear 2 0 = Inr [(0, 0), (0, 1)] \<and>
   getNode consolidatedNear (2, 0) = Some (mkNode 1 120 130 1 []) \<and>
   isInputSuper consolidatedNear (range' (interval (mkNode 1 120 130 1 []))) (0, 0) \<and>
   isInputSuper consolidatedNear (range' (interval (mkNode 1 120 130 1 []))) (0, 1) \<and>
   foldInputNode growUnion consolidatedNear 0 (range' (interval (mkNode 1 120 130 1 []))) [(0, 0), (0, 1)]
     = Inr mergedNear"
proof -
  have a: "insertLocus exampleSet \<lparr>nodes = [mkNode 1 120 130 1 []], indexWithinCollection = 0\<rparr>
     = Inr (stagedNear, 2)"
    by (simp add: exampleSet_def stagedNear_def eval_top eval_merge eval_more eval_defs)
  have b: "moveIntersectToLowIndex stagedNear [(0, 0)] 2 2 = Inr (consolidatedNear, 0)"
    by (simp add: stagedNear_def consolidatedNear_def eval_merge eval_more eval_defs)
  have c: "getNodeIntersect consolidatedNear 2 0 = Inr [(0, 0), (0, 1)]"
    by (simp add: consolidatedNear_def eval_more eval_defs)
  have d: "getNode consolidatedNear (2, 0) = Some (mkNode 1 120 130 1 [])"
    by (simp add: consolidatedNear_def getNode_def getLocus_def)
  have e: "isInputSuper consolidatedNear (range' (interval (mkNode 1 120 130 1 []))) (0, 0)"
      "isInputSuper consolidatedNear (range' (interval (mkNode 1 120 130 1 []))) (0, 1)"
    by (simp_all add: isInputSuper_def ivAt_def consolidatedNear_def getNode_def getLocus_def
        mkNode_def is_superset_of_def)
  have f: "foldInputNode growUnion consolidatedNear 0 (range' (interval (mkNode 1 120 130 1 []))) [(0, 0), (0, 1)]
     = Inr mergedNear"
    by (simp add: consolidatedNear_def mergedNear_def eval_merge eval_more eval_defs)
  from a b c d e f show ?thesis by blast
qed

theorem foldInputNode_plan_witness:
  "foldInputNode growUnion consolidatedNear 0 (range' (interval (mkNode 1 120 130 1 []))) [(0, 0), (0, 1)]
     = runPlan growUnion consolidatedNear [((0, 1), (0, 0))] \<and>
   foldInputNode growUnion consolidatedNear 0 (range' (interval (mkNode 1 0 5000 1 []))) [(0, 0), (0, 1)]
     = Inl (AssertionFailed InputSuperFound)"
proof -
  have h: "\<forall>v\<in>set [(0, 0), (0, 1)]. fst v = (0 :: nat)" by simp
  have l: "\<forall>v\<in>set [(0, 0), (0, 1)]. \<exists>n. getNode consolidatedNear v = Some n"
    by (simp add: consolidatedNear_def getNode_def getLocus_def)
  have f1: "List.find (isInputSuper consolidatedNear (range' (interval (mkNode 1 120 130 1 []))))
              [(0, 0), (0, 1)] = Some (0, 0)"
    by (simp add: isInputSuper_def ivAt_def consolidatedNear_def getNode_def getLocus_def
        mkNode_def is_superset_of_def)
  have f2: "List.find (isInputSuper consolidatedNear (range' (interval (mkNode 1 0 5000 1 []))))
              [(0, 0), (0, 1)] = None"
    by (simp add: isInputSuper_def ivAt_def consolidatedNear_def getNode_def getLocus_def
        mkNode_def is_superset_of_def)
  have p: "mergePlan (0, 0) (rev (sort (remove1 (0, 0) [(0, 0), (0 :: nat, 1 :: nat)]))) = [((0, 1), (0, 0))]"
    by simp
  from foldInputNode_plan[OF h l, where inputRange = "range' (interval (mkNode 1 120 130 1 []))" and grow = growUnion]
  have a: "foldInputNode growUnion consolidatedNear 0 (range' (interval (mkNode 1 120 130 1 []))) [(0, 0), (0, 1)]
     = runPlan growUnion consolidatedNear [((0, 1), (0, 0))]"
    unfolding f1 using p by simp
  from foldInputNode_plan[OF h l, where inputRange = "range' (interval (mkNode 1 0 5000 1 []))" and grow = growUnion]
  have b: "foldInputNode growUnion consolidatedNear 0 (range' (interval (mkNode 1 0 5000 1 []))) [(0, 0), (0, 1)]
     = Inl (AssertionFailed InputSuperFound)"
    unfolding f2 by simp
  from a b show ?thesis by simp
qed

end
